theory Spec2Isabelle
  imports Main "HOL-Library.Word" "HOL-Library.Sublist"
begin

text \<open>
  A shallow embedding of the two-agent event pipeline of \<^verbatim>\<open>agent-events.ts\<close>:
  the retrieval agent \<^verbatim>\<open>eventLookupAgent\<close> (a LangGraph tool loop), the verification agent
  \<^verbatim>\<open>webSearchAgent\<close> and the controller \<^verbatim>\<open>callAgent\<close>.

  The external collaborators (chat model, vector search, web search, checkpoint store) are
  fields of an environment record: each is a function giving the outcome of a call.
  A promise is a value of type \<open>exn + 'a\<close> (\<open>Inl\<close>: rejected); a call that is raced against
  a timer also carries the number of milliseconds after which it settles.
  Strings are JavaScript strings: lists of UTF-16 code units.

  Every function of the pipeline returns, with its result, the list of events it caused
  (model invocations, tool steps, web searches, synthesis calls), so that what a run does
  to its collaborators can be stated. The console is taken not to throw, except in the
  section on the pipeline with its console. The abort of the graph run after its own
  timeout is one of the ways in which a step of the run can throw; it is not timed here.
\<close>

section \<open>JavaScript strings\<close>

text \<open>
  \<open>js\<close> turns an ASCII literal into a JavaScript string. \<open>is_ws\<close> is the white space and
  line terminator set of \<^verbatim>\<open>String.prototype.trim\<close>; \<open>str_index_of\<close>, \<open>str_includes\<close> and
  \<open>str_split\<close> are \<^verbatim>\<open>indexOf\<close>, \<^verbatim>\<open>includes\<close> and \<^verbatim>\<open>split\<close> with a non-empty string separator
  (the matches are taken from the left and do not overlap).
\<close>

type_synonym code_unit = "16 word"
type_synonym jsstring = "code_unit list"

definition js :: "string \<Rightarrow> jsstring" where
  "js s = map of_char s"

definition is_ws :: "code_unit \<Rightarrow> bool" where
  "is_ws c = (c = 0x09 \<or> c = 0x0A \<or> c = 0x0B \<or> c = 0x0C \<or> c = 0x0D \<or> c = 0x20
      \<or> c = 0xA0 \<or> c = 0x1680 \<or> (0x2000 \<le> c \<and> c \<le> 0x200A) \<or> c = 0x2028 \<or> c = 0x2029
      \<or> c = 0x202F \<or> c = 0x205F \<or> c = 0x3000 \<or> c = 0xFEFF)"

definition str_trim :: "jsstring \<Rightarrow> jsstring" where
  "str_trim s = rev (dropWhile is_ws (rev (dropWhile is_ws s)))"

fun str_index_of :: "jsstring \<Rightarrow> jsstring \<Rightarrow> nat option" where
  "str_index_of [] sep = (if sep = [] then Some 0 else None)"
| "str_index_of (c # cs) sep =
     (if prefix sep (c # cs) then Some 0 else map_option Suc (str_index_of cs sep))"

definition str_includes :: "jsstring \<Rightarrow> jsstring \<Rightarrow> bool" where
  "str_includes s sep = (str_index_of s sep \<noteq> None)"

fun str_split :: "jsstring \<Rightarrow> jsstring \<Rightarrow> jsstring list" where
  "str_split [] sep = [[]]"
| "str_split (c # cs) sep =
     (if prefix sep (c # cs) then [] # str_split (drop (length sep - 1) cs) sep
      else (case str_split cs sep of [] \<Rightarrow> [[c]] | p # ps \<Rightarrow> (c # p) # ps))"

section \<open>JSON\<close>

text \<open>
  \<^verbatim>\<open>JSON.parse\<close>: a lexer from code units to tokens and a parser from tokens to values that
  keeps its open arrays and objects on a stack. \<open>None\<close> stands for the SyntaxError. A number
  keeps its sign, the digits of its integer and fraction parts as one natural number and
  its decimal exponent.
\<close>

datatype number = Number (negative: bool) (mantissa: nat) (exp10: int)

datatype json = JNull | JBool bool | JNum number | JStr jsstring
  | JArr "json list" | JObj "(jsstring \<times> json) list"

datatype token = TLBrace | TRBrace | TLBrack | TRBrack | TColon | TComma
  | TStr jsstring | TNum number | TTrue | TFalse | TNull

definition is_digit :: "code_unit \<Rightarrow> bool" where
  "is_digit c = (0x30 \<le> c \<and> c \<le> 0x39)"

definition digit_value :: "code_unit \<Rightarrow> nat" where
  "digit_value c = unat c - 48"

definition digits_value :: "jsstring \<Rightarrow> nat" where
  "digits_value ds = foldl (\<lambda>acc d. 10 * acc + digit_value d) 0 ds"

definition hex_value :: "code_unit \<Rightarrow> nat option" where
  "hex_value c =
     (let n = unat c in
      if 48 \<le> n \<and> n \<le> 57 then Some (n - 48)
      else if 97 \<le> n \<and> n \<le> 102 then Some (n - 87)
      else if 65 \<le> n \<and> n \<le> 70 then Some (n - 55)
      else None)"

definition hex4_value :: "code_unit \<Rightarrow> code_unit \<Rightarrow> code_unit \<Rightarrow> code_unit \<Rightarrow> code_unit option" where
  "hex4_value a b c d =
     (case (hex_value a, hex_value b, hex_value c, hex_value d) of
        (Some x, Some y, Some z, Some w) \<Rightarrow> Some (of_nat (x * 4096 + y * 256 + z * 16 + w))
      | _ \<Rightarrow> None)"

definition unescape :: "code_unit \<Rightarrow> code_unit option" where
  "unescape e =
     (if e = 0x22 then Some 0x22 else if e = 0x5C then Some 0x5C
      else if e = 0x2F then Some 0x2F else if e = 0x62 then Some 0x08
      else if e = 0x66 then Some 0x0C else if e = 0x6E then Some 0x0A
      else if e = 0x72 then Some 0x0D else if e = 0x74 then Some 0x09
      else None)"

fun scan_string :: "jsstring \<Rightarrow> (jsstring \<times> jsstring) option" where
  "scan_string [] = None"
| "scan_string (c # cs) =
     (if c = 0x22 then Some ([], cs)
      else if c = 0x5C then
        (case cs of
           [] \<Rightarrow> None
         | e # es \<Rightarrow>
             if e = 0x75 then
               (case es of
                  h1 # h2 # h3 # h4 # rest \<Rightarrow>
                    (case hex4_value h1 h2 h3 h4 of
                       None \<Rightarrow> None
                     | Some u \<Rightarrow> map_option (apfst ((#) u)) (scan_string rest))
                | _ \<Rightarrow> None)
             else
               (case unescape e of
                  None \<Rightarrow> None
                | Some u \<Rightarrow> map_option (apfst ((#) u)) (scan_string es)))
      else if c < 0x20 then None
      else map_option (apfst ((#) c)) (scan_string cs))"

definition scan_sign :: "jsstring \<Rightarrow> bool \<times> jsstring" where
  "scan_sign s = (case s of c # cs \<Rightarrow> if c = 0x2D then (True, cs) else (False, s) | [] \<Rightarrow> (False, s))"

definition scan_int :: "jsstring \<Rightarrow> (jsstring \<times> jsstring) option" where
  "scan_int s =
     (case s of
        [] \<Rightarrow> None
      | d # ds \<Rightarrow>
          if d = 0x30 then Some ([d], ds)
          else if is_digit d then Some (takeWhile is_digit s, dropWhile is_digit s)
          else None)"

definition scan_frac :: "jsstring \<Rightarrow> (jsstring \<times> jsstring) option" where
  "scan_frac s =
     (case s of
        [] \<Rightarrow> Some ([], s)
      | c # cs \<Rightarrow>
          if c = 0x2E then
            (if takeWhile is_digit cs = [] then None
             else Some (takeWhile is_digit cs, dropWhile is_digit cs))
          else Some ([], s))"

definition scan_exp :: "jsstring \<Rightarrow> (int \<times> jsstring) option" where
  "scan_exp s =
     (case s of
        [] \<Rightarrow> Some (0, s)
      | c # cs \<Rightarrow>
          if c = 0x65 \<or> c = 0x45 then
            (let (neg, ds) =
                   (case cs of
                      [] \<Rightarrow> (False, cs)
                    | g # gs \<Rightarrow> if g = 0x2D then (True, gs) else if g = 0x2B then (False, gs)
                               else (False, cs))
             in if takeWhile is_digit ds = [] then None
                else Some ((if neg then - int (digits_value (takeWhile is_digit ds))
                            else int (digits_value (takeWhile is_digit ds))),
                           dropWhile is_digit ds))
          else Some (0, s))"

definition scan_number :: "jsstring \<Rightarrow> (number \<times> jsstring) option" where
  "scan_number s =
     (case scan_sign s of (neg, s1) \<Rightarrow>
      case scan_int s1 of None \<Rightarrow> None | Some (ip, s2) \<Rightarrow>
      case scan_frac s2 of None \<Rightarrow> None | Some (fp, s3) \<Rightarrow>
      case scan_exp s3 of None \<Rightarrow> None | Some (e, s4) \<Rightarrow>
        Some (Number neg (digits_value (ip @ fp)) (e - int (length fp)), s4))"

definition is_json_ws :: "code_unit \<Rightarrow> bool" where
  "is_json_ws c = (c = 0x09 \<or> c = 0x0A \<or> c = 0x0D \<or> c = 0x20)"


lemma scan_string_shorter: "scan_string s = Some (v, rest) \<Longrightarrow> length rest < length s"
proof (induction s arbitrary: v rest rule: length_induct)
  case (1 s)
  note IH = "1.IH"[rule_format]
  show ?case
  proof (cases s)
    case Nil
    with "1.prems" show ?thesis by simp
  next
    case (Cons c cs)
    have sub: "\<And>t w r. length t < length s \<Longrightarrow> scan_string t = Some (w, r) \<Longrightarrow> length r < length t"
      using IH by blast
    from "1.prems" Cons show ?thesis
      by (auto split: if_splits list.splits option.splits dest!: sub[rotated])
  qed
qed

lemma scan_int_shorter: "scan_int s = Some (v, rest) \<Longrightarrow> length rest < length s"
  by (cases s) (auto simp: scan_int_def split: if_splits intro: le_imp_less_Suc length_dropWhile_le)

lemma scan_frac_le: "scan_frac s = Some (v, rest) \<Longrightarrow> length rest \<le> length s"
  by (cases s) (auto simp: scan_frac_def split: if_splits intro: le_SucI length_dropWhile_le)

lemma scan_exp_le: "scan_exp s = Some (v, rest) \<Longrightarrow> length rest \<le> length s"
proof (cases s)
  case Nil
  assume "scan_exp s = Some (v, rest)"
  with Nil show ?thesis by (simp add: scan_exp_def)
next
  case (Cons c cs)
  assume a: "scan_exp s = Some (v, rest)"
  show ?thesis
  proof (cases "c = 0x65 \<or> c = 0x45")
    case False
    with a Cons show ?thesis by (simp add: scan_exp_def)
  next
    case True
    with a Cons obtain ds where r: "rest = dropWhile is_digit ds" and d: "length ds \<le> length cs"
      by (auto simp: scan_exp_def Let_def split: list.splits if_splits prod.splits)
    have "length rest \<le> length ds" unfolding r by (rule length_dropWhile_le)
    with d Cons show ?thesis by simp
  qed
qed

lemma scan_sign_le: "scan_sign s = (b, rest) \<Longrightarrow> length rest \<le> length s"
  by (cases s) (auto simp: scan_sign_def split: if_splits)

lemma scan_number_shorter:
  assumes "scan_number s = Some (v, rest)"
  shows "length rest < length s"
proof -
  from assms obtain neg s1 ip s2 fp s3 e where
    a: "scan_sign s = (neg, s1)" and b: "scan_int s1 = Some (ip, s2)"
    and c: "scan_frac s2 = Some (fp, s3)" and d: "scan_exp s3 = Some (e, rest)"
    by (auto simp: scan_number_def split: prod.splits option.splits)
  from scan_sign_le[OF a] scan_int_shorter[OF b] scan_frac_le[OF c] scan_exp_le[OF d]
  show ?thesis by linarith
qed

function lex :: "jsstring \<Rightarrow> token list option" where
  "lex [] = Some []"
| "lex (c # cs) =
     (if is_json_ws c then lex cs
      else if c = 0x7B then map_option ((#) TLBrace) (lex cs)
      else if c = 0x7D then map_option ((#) TRBrace) (lex cs)
      else if c = 0x5B then map_option ((#) TLBrack) (lex cs)
      else if c = 0x5D then map_option ((#) TRBrack) (lex cs)
      else if c = 0x3A then map_option ((#) TColon) (lex cs)
      else if c = 0x2C then map_option ((#) TComma) (lex cs)
      else if c = 0x22 then
        (case scan_string cs of
           None \<Rightarrow> None
         | Some (s, rest) \<Rightarrow> map_option ((#) (TStr s)) (lex rest))
      else if c = 0x2D \<or> is_digit c then
        (case scan_number (c # cs) of
           None \<Rightarrow> None
         | Some (n, rest) \<Rightarrow> map_option ((#) (TNum n)) (lex rest))
      else if prefix (js ''true'') (c # cs) then map_option ((#) TTrue) (lex (drop 3 cs))
      else if prefix (js ''false'') (c # cs) then map_option ((#) TFalse) (lex (drop 4 cs))
      else if prefix (js ''null'') (c # cs) then map_option ((#) TNull) (lex (drop 3 cs))
      else None)"
  by pat_completeness auto
termination
proof (relation "measure length")
  fix c cs s rest x
  assume "scan_string cs = Some x" "(s, rest) = x"
  then have "length rest < length cs" using scan_string_shorter[of cs s rest] by simp
  then show "(rest, c # cs) \<in> measure length" by simp
next
  fix c cs n rest x
  assume "scan_number (c # cs) = Some x" "(n, rest) = x"
  then have "length rest < length (c # cs)" using scan_number_shorter[of "c # cs" n rest] by simp
  then show "(rest, c # cs) \<in> measure length" by simp
qed simp_all

datatype ctx = CArr "json list" | CObj "(jsstring \<times> json) list" jsstring

fun pval :: "ctx list \<Rightarrow> token list \<Rightarrow> json option"
  and pafter :: "json \<Rightarrow> ctx list \<Rightarrow> token list \<Rightarrow> json option" where
  "pval st [] = None"
| "pval st (t # ts) =
     (case t of
        TNull \<Rightarrow> pafter JNull st ts
      | TTrue \<Rightarrow> pafter (JBool True) st ts
      | TFalse \<Rightarrow> pafter (JBool False) st ts
      | TNum n \<Rightarrow> pafter (JNum n) st ts
      | TStr s \<Rightarrow> pafter (JStr s) st ts
      | TLBrack \<Rightarrow>
          (case ts of
             TRBrack # ts' \<Rightarrow> pafter (JArr []) st ts'
           | _ \<Rightarrow> pval (CArr [] # st) ts)
      | TLBrace \<Rightarrow>
          (case ts of
             TRBrace # ts' \<Rightarrow> pafter (JObj []) st ts'
           | TStr k # TColon # ts' \<Rightarrow> pval (CObj [] k # st) ts'
           | _ \<Rightarrow> None)
      | _ \<Rightarrow> None)"
| "pafter v [] ts = (if ts = [] then Some v else None)"
| "pafter v (CArr acc # st) ts =
     (case ts of
        TComma # ts' \<Rightarrow> pval (CArr (v # acc) # st) ts'
      | TRBrack # ts' \<Rightarrow> pafter (JArr (rev (v # acc))) st ts'
      | _ \<Rightarrow> None)"
| "pafter v (CObj acc k # st) ts =
     (case ts of
        TComma # TStr k' # TColon # ts' \<Rightarrow> pval (CObj ((k, v) # acc) k' # st) ts'
      | TRBrace # ts' \<Rightarrow> pafter (JObj (rev ((k, v) # acc))) st ts'
      | _ \<Rightarrow> None)"

definition JSON_parse :: "jsstring \<Rightarrow> json option" where
  "JSON_parse s = (case lex s of None \<Rightarrow> None | Some ts \<Rightarrow> pval [] ts)"

subsection \<open>\<^verbatim>\<open>JSON.stringify\<close> of strings and of flat objects\<close>

definition hex_digit :: "nat \<Rightarrow> code_unit" where
  "hex_digit d = (if d < 10 then of_nat (48 + d) else of_nat (87 + d))"

definition hex4 :: "code_unit \<Rightarrow> jsstring" where
  "hex4 c = [hex_digit (unat c div 4096), hex_digit (unat c div 256 mod 16),
             hex_digit (unat c div 16 mod 16), hex_digit (unat c mod 16)]"

definition is_surrogate :: "code_unit \<Rightarrow> bool" where
  "is_surrogate c = (0xD800 \<le> c \<and> c \<le> 0xDFFF)"

definition is_high_surrogate :: "code_unit \<Rightarrow> bool" where
  "is_high_surrogate c = (0xD800 \<le> c \<and> c \<le> 0xDBFF)"

definition is_low_surrogate :: "code_unit \<Rightarrow> bool" where
  "is_low_surrogate c = (0xDC00 \<le> c \<and> c \<le> 0xDFFF)"

text \<open>
  \<^verbatim>\<open>QuoteJSONString\<close>: the short escapes, \<^verbatim>\<open>\uXXXX\<close> (lower-case hexadecimal) for the other
  control characters and for unpaired surrogates, every other code unit as it is.
\<close>

definition quote_unit :: "code_unit \<Rightarrow> jsstring" where
  "quote_unit c =
     (if c = 0x08 then [0x5C, 0x62] else if c = 0x09 then [0x5C, 0x74]
      else if c = 0x0A then [0x5C, 0x6E] else if c = 0x0C then [0x5C, 0x66]
      else if c = 0x0D then [0x5C, 0x72] else if c = 0x22 then [0x5C, 0x22]
      else if c = 0x5C then [0x5C, 0x5C]
      else if c < 0x20 \<or> is_surrogate c then [0x5C, 0x75] @ hex4 c
      else [c])"

fun quote_body :: "jsstring \<Rightarrow> jsstring" where
  "quote_body [] = []"
| "quote_body [c] = quote_unit c"
| "quote_body (c # d # cs) =
     (if is_high_surrogate c \<and> is_low_surrogate d then c # d # quote_body cs
      else quote_unit c @ quote_body (d # cs))"

definition QuoteJSONString :: "jsstring \<Rightarrow> jsstring" where
  "QuoteJSONString s = 0x22 # quote_body s @ [0x22]"

text \<open>
  The objects this program serialises are flat: every property value is a string or
  \<^verbatim>\<open>undefined\<close> (\<open>None\<close>), and \<^verbatim>\<open>JSON.stringify\<close> leaves an undefined property out.
\<close>

definition stringify_member :: "jsstring \<times> jsstring \<Rightarrow> jsstring" where
  "stringify_member kv = QuoteJSONString (fst kv) @ [0x3A] @ QuoteJSONString (snd kv)"

fun join_comma :: "jsstring list \<Rightarrow> jsstring" where
  "join_comma [] = []"
| "join_comma [x] = x"
| "join_comma (x # y # ys) = x @ [0x2C] @ join_comma (y # ys)"

definition defined_members :: "(jsstring \<times> jsstring option) list \<Rightarrow> (jsstring \<times> jsstring) list" where
  "defined_members fs = List.map_filter (\<lambda>(k, v). map_option (Pair k) v) fs"

definition JSON_stringify_object :: "(jsstring \<times> jsstring option) list \<Rightarrow> jsstring" where
  "JSON_stringify_object fs =
     [0x7B] @ join_comma (map stringify_member (defined_members fs)) @ [0x7D]"

definition JSON_stringify_array :: "jsstring list \<Rightarrow> jsstring" where
  "JSON_stringify_array elems = [0x5B] @ join_comma elems @ [0x5D]"

text \<open>The tokens of the members of a serialised flat object.\<close>

fun member_tokens :: "(jsstring \<times> jsstring) list \<Rightarrow> token list" where
  "member_tokens [] = []"
| "member_tokens [kv] = [TStr (fst kv), TColon, TStr (snd kv)]"
| "member_tokens (kv # kv' # kvs) = [TStr (fst kv), TColon, TStr (snd kv), TComma] @ member_tokens (kv' # kvs)"

subsection \<open>Reading the parsed query\<close>

text \<open>
  \<open>Exn\<close> is a thrown value with its \<^verbatim>\<open>message\<close> property (\<open>None\<close>: undefined).

  \<^verbatim>\<open>parsedQuery.searchSummary\<close>: reading a property of \<^verbatim>\<open>null\<close> throws a TypeError; an object
  gives the value of its last member of that name; every other JSON value (a number, a
  boolean, a string, an array) has no such property and gives \<^verbatim>\<open>undefined\<close> (\<open>None\<close>).
\<close>

datatype exn = Exn (message: "jsstring option")

definition TypeError :: exn where
  "TypeError = Exn (Some (js ''TypeError''))"

definition get_searchSummary :: "json \<Rightarrow> exn + json option" where
  "get_searchSummary v =
     (case v of
        JNull \<Rightarrow> Inl TypeError
      | JObj members \<Rightarrow> Inr (map_of (rev members) (js ''searchSummary''))
      | _ \<Rightarrow> Inr None)"

text \<open>
  The value of a number literal is \<open>mantissa * 10 ^ exp10\<close>; as a double it is zero when
  its magnitude is at most \<open>2 ^ -1075\<close> (round to nearest, ties to even).
\<close>

definition number_nonzero :: "number \<Rightarrow> bool" where
  "number_nonzero n =
     (if 0 \<le> exp10 n then 0 < mantissa n
      else 10 ^ nat (- exp10 n) < mantissa n * 2 ^ 1075)"

definition truthy :: "json option \<Rightarrow> bool" where
  "truthy v =
     (case v of
        None \<Rightarrow> False
      | Some JNull \<Rightarrow> False
      | Some (JBool b) \<Rightarrow> b
      | Some (JNum n) \<Rightarrow> number_nonzero n
      | Some (JStr s) \<Rightarrow> s \<noteq> []
      | Some (JArr _) \<Rightarrow> True
      | Some (JObj _) \<Rightarrow> True)"

section \<open>Messages, collaborators and the environment\<close>

text \<open>
  A message content is a string or an array of content blocks. A tool call carries the
  arguments \<^verbatim>\<open>query\<close> and \<^verbatim>\<open>n\<close> when they fit the tool's schema (\<open>None\<close> otherwise). The vector
  search gives a list of hits, each the JSON text of one (document, score) pair, or nothing
  (\<^verbatim>\<open>null\<close>, \<^verbatim>\<open>undefined\<close>), or throws. A timed outcome is the number of milliseconds after
  which a call settles, with what it settles to. A prompt holds the three values that
  \<^verbatim>\<open>webSearchAgent\<close> puts into the text it sends to the synthesis model.

  The environment: the vector search (by query and count), the chat model with the tools
  bound (by the messages so far), the text of the tool node for a call it cannot run, the
  messages saved for a thread, the failure (if any) of building the clients of
  \<^verbatim>\<open>webSearchAgent\<close>, the web search (by the number of the call and the query) and the
  synthesis model.
\<close>

datatype content = Text jsstring | Blocks "jsstring list"

record tool_call =
  tc_name :: jsstring
  tc_args :: "(jsstring \<times> int option) option"
  tc_id :: jsstring

datatype message =
    HumanMessage jsstring
  | AIMessage content "tool_call list"
  | ToolMessage jsstring jsstring

datatype vs_outcome = VSResult "jsstring list option" | VSThrows exn

type_synonym 'a timed = "nat \<times> (exn + 'a)"

datatype search_entry = SearchOk jsstring jsstring | SearchErr jsstring "jsstring option"

record prompt =
  original_query :: jsstring
  database_results :: jsstring
  web_search_results :: "search_entry list"

record env =
  similaritySearchWithScore :: "jsstring \<Rightarrow> int \<Rightarrow> vs_outcome"
  chat_model :: "message list \<Rightarrow> exn + content \<times> tool_call list"
  tool_node_error :: "tool_call \<Rightarrow> jsstring"
  checkpoint_load :: "jsstring \<Rightarrow> exn + message list"
  web_agent_setup :: "exn option"
  tavily :: "nat \<Rightarrow> jsstring \<Rightarrow> jsstring timed"
  synthesis_model :: "prompt \<Rightarrow> content timed"

datatype event = ModelInvoked | ToolsExecuted | WebSearch jsstring | Synthesis prompt

definition PASS_TO_WEB_AGENT :: jsstring where
  "PASS_TO_WEB_AGENT = js ''PASS_TO_WEB_AGENT''"

definition NO_RESULTS_FOUND :: jsstring where
  "NO_RESULTS_FOUND = js ''NO_RESULTS_FOUND''"

section \<open>The retrieval agent\<close>

text \<open>
  \<^verbatim>\<open>eventLookupTool\<close> (lines 32 to 69): an empty (or missing) result and an error both
  answer with the no-results marker; the error answer also carries \<^verbatim>\<open>error.message\<close>.
\<close>

definition eventLookupTool :: "env \<Rightarrow> jsstring \<Rightarrow> int option \<Rightarrow> jsstring" where
  "eventLookupTool env query n_opt =
     (let n = (case n_opt of None \<Rightarrow> 10 | Some k \<Rightarrow> k) in
      case similaritySearchWithScore env query n of
        VSThrows error \<Rightarrow>
          JSON_stringify_object
            [(js ''message'', Some NO_RESULTS_FOUND), (js ''error'', message error)]
      | VSResult None \<Rightarrow> JSON_stringify_object [(js ''message'', Some NO_RESULTS_FOUND)]
      | VSResult (Some result) \<Rightarrow>
          if length result = 0 then JSON_stringify_object [(js ''message'', Some NO_RESULTS_FOUND)]
          else JSON_stringify_array result)"

text \<open>
  The prebuilt tool node answers every requested call with one tool message: the tool's
  result when the name is \<^verbatim>\<open>events_lookup\<close> and the arguments fit the schema, an error text
  of the library otherwise.
\<close>

definition run_tool :: "env \<Rightarrow> tool_call \<Rightarrow> message" where
  "run_tool env tc =
     (if tc_name tc = js ''events_lookup'' then
        (case tc_args tc of
           Some (query, n) \<Rightarrow> ToolMessage (eventLookupTool env query n) (tc_id tc)
         | None \<Rightarrow> ToolMessage (tool_node_error env tc) (tc_id tc))
      else ToolMessage (tool_node_error env tc) (tc_id tc))"

definition last_tool_calls :: "message list \<Rightarrow> tool_call list" where
  "last_tool_calls messages =
     (case rev messages of AIMessage c tcs # _ \<Rightarrow> tcs | _ \<Rightarrow> [])"

definition toolNode :: "env \<Rightarrow> message list \<Rightarrow> message list" where
  "toolNode env messages = map (run_tool env) (last_tool_calls messages)"

text \<open>\<^verbatim>\<open>shouldContinue\<close>: \<open>True\<close> stands for the edge to \<^verbatim>\<open>"tools"\<close>, \<open>False\<close> for \<^verbatim>\<open>"__end__"\<close>.\<close>

definition shouldContinue :: "message list \<Rightarrow> bool" where
  "shouldContinue messages = (0 < length (last_tool_calls messages))"

definition callModel :: "env \<Rightarrow> message list \<Rightarrow> exn + message list" where
  "callModel env messages =
     (case chat_model env messages of
        Inl error \<Rightarrow> Inl error
      | Inr (c, tcs) \<Rightarrow> Inr [AIMessage c tcs])"

definition GraphRecursionError :: exn where
  "GraphRecursionError = Exn (Some (js ''Recursion limit reached without hitting a stop condition''))"

datatype node = AgentNode | ToolsNode

text \<open>
  The compiled graph (lines 135 to 154): from the start to \<^verbatim>\<open>agent\<close>, from \<^verbatim>\<open>agent\<close> to \<^verbatim>\<open>tools\<close>
  or to the end as \<^verbatim>\<open>shouldContinue\<close> says, from \<^verbatim>\<open>tools\<close> back to \<^verbatim>\<open>agent\<close>. Each run of a
  node is one step; the second argument is the number of steps left of \<^verbatim>\<open>recursionLimit\<close>.
  After a step the run first looks at the steps left, and throws when there is none, and
  only then at whether the graph has come to its end: a run whose last allowed step gives
  the final answer throws all the same. The reducer appends what a node returns to the
  messages.
\<close>

fun run_graph :: "env \<Rightarrow> nat \<Rightarrow> node \<Rightarrow> message list \<Rightarrow> event list \<times> (exn + message list)" where
  "run_graph env 0 nd messages = ([], Inl GraphRecursionError)"
| "run_graph env (Suc k) AgentNode messages =
     (case callModel env messages of
        Inl error \<Rightarrow> ([ModelInvoked], Inl error)
      | Inr reply \<Rightarrow>
          if k = 0 then ([ModelInvoked], Inl GraphRecursionError)
          else if shouldContinue (messages @ reply) then
            (case run_graph env k ToolsNode (messages @ reply) of
               (ev, r) \<Rightarrow> (ModelInvoked # ev, r))
          else ([ModelInvoked], Inr (messages @ reply)))"
| "run_graph env (Suc k) ToolsNode messages =
     (if k = 0 then ([ToolsExecuted], Inl GraphRecursionError)
      else
        (case run_graph env k AgentNode (messages @ toolNode env messages) of
           (ev, r) \<Rightarrow> (ToolsExecuted # ev, r)))"

definition recursionLimit :: nat where
  "recursionLimit = 15"

definition message_content :: "message \<Rightarrow> content" where
  "message_content m =
     (case m of HumanMessage s \<Rightarrow> Text s | AIMessage c tcs \<Rightarrow> c | ToolMessage s i \<Rightarrow> Text s)"

text \<open>
  The body of the \<^verbatim>\<open>try\<close> of \<^verbatim>\<open>eventLookupAgent\<close>: the saved messages of the thread, the
  new human message, the graph run, and the content of the last message. The \<^verbatim>\<open>catch\<close>
  (lines 157 to 160) turns every exception into the no-results marker.
\<close>

definition eventLookupAgent_try :: "env \<Rightarrow> jsstring \<Rightarrow> jsstring \<Rightarrow> event list \<times> (exn + content)" where
  "eventLookupAgent_try env query thread_id =
     (case checkpoint_load env thread_id of
        Inl error \<Rightarrow> ([], Inl error)
      | Inr saved \<Rightarrow>
          (case run_graph env recursionLimit AgentNode (saved @ [HumanMessage query]) of
             (ev, Inl error) \<Rightarrow> (ev, Inl error)
           | (ev, Inr finalState) \<Rightarrow>
               (case rev finalState of
                  [] \<Rightarrow> (ev, Inl TypeError)
                | m # _ \<Rightarrow> (ev, Inr (message_content m)))))"

definition eventLookupAgent :: "env \<Rightarrow> jsstring \<Rightarrow> jsstring \<Rightarrow> event list \<times> (exn + content)" where
  "eventLookupAgent env query thread_id =
     (case eventLookupAgent_try env query thread_id of
        (ev, Inl error) \<Rightarrow> (ev, Inr (Text NO_RESULTS_FOUND))
      | (ev, Inr c) \<Rightarrow> (ev, Inr c))"

section \<open>The verification agent\<close>

text \<open>The delays of the three timers (lines 203, 237 and 273, 287), in milliseconds.\<close>

definition search_deadline_ms :: nat where
  "search_deadline_ms = 10000"

definition synthesis_deadline_ms :: nat where
  "synthesis_deadline_ms = 15000"

definition web_stage_deadline_ms :: nat where
  "web_stage_deadline_ms = 45000"

text \<open>
  \<^verbatim>\<open>Promise.race([work, timeoutPromise])\<close>: the work wins when it settles before the timer
  fires, and otherwise the race rejects with the timer's error after the deadline.
\<close>

definition race_timeout :: "'a timed \<Rightarrow> nat \<Rightarrow> jsstring \<Rightarrow> 'a timed" where
  "race_timeout work deadline msg =
     (if fst work < deadline then work else (deadline, Inl (Exn (Some msg))))"

text \<open>
  The query list of \<^verbatim>\<open>webSearchAgent\<close> (lines 179 to 193). Every throw inside the inner
  \<^verbatim>\<open>try\<close> gives \<^verbatim>\<open>[query]\<close>: a text that is not JSON, the property read on \<^verbatim>\<open>null\<close>, and the
  call of \<^verbatim>\<open>split\<close> on a truthy value that is not a string.
\<close>

definition searchQueries_of :: "jsstring \<Rightarrow> jsstring list" where
  "searchQueries_of query =
     (case JSON_parse query of
        None \<Rightarrow> [query]
      | Some parsedQuery \<Rightarrow>
          (case get_searchSummary parsedQuery of
             Inl error \<Rightarrow> [query]
           | Inr v \<Rightarrow>
               if truthy v then
                 (case v of
                    Some (JStr s) \<Rightarrow>
                      filter (\<lambda>line. 0 < length line) (map str_trim (str_split s [0x0A]))
                  | _ \<Rightarrow> [query])
               else []))"

text \<open>
  The search loop (lines 196 to 213): the elapsed time and one entry per query, in order.
  The synthesis (lines 216 to 241) resolves with the model's content, or with the
  fallback when the model throws or the timer wins.
\<close>

fun run_searches :: "env \<Rightarrow> nat \<Rightarrow> jsstring list \<Rightarrow> nat \<times> search_entry list" where
  "run_searches env i [] = (0, [])"
| "run_searches env i (searchQuery # rest) =
     (case race_timeout (tavily env i searchQuery) search_deadline_ms (js ''Search timeout'') of
        (d, r) \<Rightarrow>
          (case run_searches env (Suc i) rest of
             (d', entries) \<Rightarrow>
               (d + d',
                (case r of
                   Inr result \<Rightarrow> SearchOk searchQuery result
                 | Inl error \<Rightarrow> SearchErr searchQuery (message error)) # entries)))"

definition unverified_fallback :: "jsstring \<Rightarrow> jsstring" where
  "unverified_fallback dbResults =
     js ''RECOMMENDATIONS'' @ [0x0A]
       @ js ''I found these events but couldn't verify all details:'' @ [0x0A] @ dbResults"

definition synthesize :: "env \<Rightarrow> prompt \<Rightarrow> nat \<times> content" where
  "synthesize env p =
     (case race_timeout (synthesis_model env p) synthesis_deadline_ms (js ''Processing timeout'') of
        (d, Inr c) \<Rightarrow> (d, c)
      | (d, Inl error) \<Rightarrow> (d, Text (unverified_fallback (database_results p))))"

text \<open>
  \<^verbatim>\<open>webSearchAgent\<close>: the events it causes and its promise with the time it takes to settle.
  The two clients are built before the \<^verbatim>\<open>try\<close> (lines 168 to 175), so a failure there
  rejects the promise.
\<close>

definition synthesis_prompt :: "env \<Rightarrow> jsstring \<Rightarrow> jsstring \<Rightarrow> prompt" where
  "synthesis_prompt env query dbResults =
     \<lparr>original_query = query, database_results = dbResults,
      web_search_results = snd (run_searches env 0 (searchQueries_of query))\<rparr>"

definition webSearchAgent :: "env \<Rightarrow> jsstring \<Rightarrow> jsstring \<Rightarrow> event list \<times> content timed" where
  "webSearchAgent env query dbResults =
     (case web_agent_setup env of
        Some error \<Rightarrow> ([], (0, Inl error))
      | None \<Rightarrow>
          (map WebSearch (searchQueries_of query)
             @ [Synthesis (synthesis_prompt env query dbResults)],
           (fst (run_searches env 0 (searchQueries_of query))
              + fst (synthesize env (synthesis_prompt env query dbResults)),
            Inr (snd (synthesize env (synthesis_prompt env query dbResults))))))"

section \<open>The controller\<close>

text \<open>
  The object that \<^verbatim>\<open>callAgent\<close> serialises for the verification agent (lines 261 to 267),
  from the first two parts of the split, and the fixed answers of the controller.
\<close>

definition enhancedQuery :: "jsstring \<Rightarrow> jsstring \<Rightarrow> jsstring \<Rightarrow> (jsstring \<times> jsstring option) list" where
  "enhancedQuery query head_text block =
     [(js ''originalQuery'', Some query),
      (js ''searchSummary'', Some (str_trim block)),
      (js ''dbResults'', Some (str_trim head_text))]"

definition some_events_fallback :: "jsstring \<Rightarrow> jsstring" where
  "some_events_fallback head_text =
     js ''RECOMMENDATIONS'' @ [0x0A]
       @ js ''I found some events but couldn't verify all details:'' @ [0x0A] @ head_text"

definition nothing_found :: jsstring where
  "nothing_found =
     js ''RECOMMENDATIONS'' @ [0x0A]
       @ js ''I couldn't find any specific events in our database or through web search. Please try a different city or check back later.''"

definition apology :: jsstring where
  "apology = js ''I apologize, but I encountered an error while processing your request. Please try again or rephrase your query.''"

text \<open>
  The race of the whole web stage against its timer, with the value the \<^verbatim>\<open>catch\<close> returns
  on a timeout or a rejection.
\<close>

definition web_stage :: "event list \<times> content timed \<Rightarrow> jsstring \<Rightarrow> event list \<times> (exn + content)" where
  "web_stage run fallback =
     (fst run,
      Inr (case snd (race_timeout (snd run) web_stage_deadline_ms (js ''Web search process timeout'')) of
             Inr finalResults \<Rightarrow> finalResults
           | Inl error \<Rightarrow> Text fallback))"

text \<open>
  The branch for an answer with the forward marker. \<^verbatim>\<open>split(...)[1]\<close> of a list with fewer
  than two parts is \<^verbatim>\<open>undefined\<close>, and \<^verbatim>\<open>.trim()\<close> on it throws outside the inner \<^verbatim>\<open>try\<close>.
\<close>

definition forward_branch :: "env \<Rightarrow> jsstring \<Rightarrow> jsstring \<Rightarrow> event list \<times> (exn + content)" where
  "forward_branch env query dbResults =
     (case str_split dbResults PASS_TO_WEB_AGENT of
        head_text # block # _ \<Rightarrow>
          web_stage
            (webSearchAgent env (JSON_stringify_object (enhancedQuery query head_text block)) dbResults)
            (some_events_fallback head_text)
      | _ \<Rightarrow> ([], Inl TypeError))"

definition web_only_branch :: "env \<Rightarrow> jsstring \<Rightarrow> event list \<times> (exn + content)" where
  "web_only_branch env query =
     web_stage (webSearchAgent env query (js ''No database results found.'')) nothing_found"

text \<open>The body of the \<^verbatim>\<open>try\<close> of \<^verbatim>\<open>callAgent\<close>, after the retrieval agent's promise has settled.\<close>

definition callAgent_try :: "env \<Rightarrow> jsstring \<Rightarrow> exn + content \<Rightarrow> event list \<times> (exn + content)" where
  "callAgent_try env query lookup =
     (case lookup of
        Inl error \<Rightarrow> ([], Inl error)
      | Inr (Blocks bs) \<Rightarrow> ([], Inr (Blocks bs))
      | Inr (Text dbResults) \<Rightarrow>
          if dbResults \<noteq> [] then
            (if str_includes dbResults PASS_TO_WEB_AGENT then forward_branch env query dbResults
             else if str_includes dbResults NO_RESULTS_FOUND then web_only_branch env query
             else ([], Inr (Text dbResults)))
          else ([], Inr (Text dbResults)))"

text \<open>
  The \<^verbatim>\<open>catch\<close> of \<^verbatim>\<open>callAgent\<close> (lines 300 to 303), and the whole function: the retrieval
  agent first, then the body on what it settled with.
\<close>

definition callAgent_after :: "env \<Rightarrow> jsstring \<Rightarrow> exn + content \<Rightarrow> event list \<times> (exn + content)" where
  "callAgent_after env query lookup =
     (case callAgent_try env query lookup of
        (ev, Inl error) \<Rightarrow> (ev, Inr (Text apology))
      | (ev, Inr c) \<Rightarrow> (ev, Inr c))"

definition callAgent :: "env \<Rightarrow> jsstring \<Rightarrow> jsstring \<Rightarrow> event list \<times> (exn + content)" where
  "callAgent env query thread_id =
     (case eventLookupAgent env query thread_id of
        (ev1, lookup) \<Rightarrow>
          (case callAgent_after env query lookup of
             (ev2, r) \<Rightarrow> (ev1 @ ev2, r)))"

section \<open>The pipeline with its console\<close>

text \<open>
  The definitions above are the pipeline with a console that never throws. Here the
  console is a collaborator too: for the fixed text that a call of \<^verbatim>\<open>console.log\<close> or
  \<^verbatim>\<open>console.error\<close> starts with, it says whether that call throws, and what. These
  functions give what a promise settles with, without the events.
\<close>

type_synonym console = "jsstring \<Rightarrow> exn option"

text \<open>
  The lookup tool (lines 33 to 59): the call of line 35 is inside the \<^verbatim>\<open>try\<close>, the call of
  line 57 in the \<^verbatim>\<open>catch\<close>, where a throw rejects the tool's promise. The tool node answers a
  rejected tool with its error text.
\<close>

definition eventLookupTool_logged :: "console \<Rightarrow> env \<Rightarrow> jsstring \<Rightarrow> int option \<Rightarrow> exn + jsstring" where
  "eventLookupTool_logged console env query n_opt =
     (case (case console (js ''Event lookup tool called with query:'') of
              Some error \<Rightarrow> Inl error
            | None \<Rightarrow>
                (case similaritySearchWithScore env query (case n_opt of None \<Rightarrow> 10 | Some k \<Rightarrow> k) of
                   VSThrows error \<Rightarrow> Inl error
                 | VSResult None \<Rightarrow>
                     Inr (JSON_stringify_object [(js ''message'', Some NO_RESULTS_FOUND)])
                 | VSResult (Some result) \<Rightarrow>
                     Inr (if length result = 0
                          then JSON_stringify_object [(js ''message'', Some NO_RESULTS_FOUND)]
                          else JSON_stringify_array result))) of
        Inr answer \<Rightarrow> Inr answer
      | Inl error \<Rightarrow>
          (case console (js ''Error in event lookup tool:'') of
             Some error' \<Rightarrow> Inl error'
           | None \<Rightarrow>
               Inr (JSON_stringify_object
                      [(js ''message'', Some NO_RESULTS_FOUND), (js ''error'', message error)])))"

definition run_tool_logged :: "console \<Rightarrow> env \<Rightarrow> tool_call \<Rightarrow> message" where
  "run_tool_logged console env tc =
     (if tc_name tc = js ''events_lookup'' then
        (case tc_args tc of
           Some (query, n) \<Rightarrow>
             (case eventLookupTool_logged console env query n of
                Inr answer \<Rightarrow> ToolMessage answer (tc_id tc)
              | Inl error \<Rightarrow> ToolMessage (tool_node_error env tc) (tc_id tc))
         | None \<Rightarrow> ToolMessage (tool_node_error env tc) (tc_id tc))
      else ToolMessage (tool_node_error env tc) (tc_id tc))"

definition toolNode_logged :: "console \<Rightarrow> env \<Rightarrow> message list \<Rightarrow> message list" where
  "toolNode_logged console env messages = map (run_tool_logged console env) (last_tool_calls messages)"

text \<open>\<^verbatim>\<open>callModel\<close> (lines 85 to 133) logs a failure of the model and throws it again.\<close>

definition callModel_logged :: "console \<Rightarrow> env \<Rightarrow> message list \<Rightarrow> exn + message list" where
  "callModel_logged console env messages =
     (case chat_model env messages of
        Inl error \<Rightarrow>
          (case console (js ''Error in model call:'') of
             Some error' \<Rightarrow> Inl error'
           | None \<Rightarrow> Inl error)
      | Inr (c, tcs) \<Rightarrow> Inr [AIMessage c tcs])"

fun run_graph_logged :: "console \<Rightarrow> env \<Rightarrow> nat \<Rightarrow> node \<Rightarrow> message list \<Rightarrow> exn + message list" where
  "run_graph_logged console env 0 nd messages = Inl GraphRecursionError"
| "run_graph_logged console env (Suc k) AgentNode messages =
     (case callModel_logged console env messages of
        Inl error \<Rightarrow> Inl error
      | Inr reply \<Rightarrow>
          if k = 0 then Inl GraphRecursionError
          else if shouldContinue (messages @ reply)
          then run_graph_logged console env k ToolsNode (messages @ reply)
          else Inr (messages @ reply))"
| "run_graph_logged console env (Suc k) ToolsNode messages =
     (if k = 0 then Inl GraphRecursionError
      else run_graph_logged console env k AgentNode (messages @ toolNode_logged console env messages))"

text \<open>
  \<^verbatim>\<open>eventLookupAgent\<close>: its \<^verbatim>\<open>catch\<close> (lines 157 to 160) logs before it returns the marker, so
  that a throw of that call rejects the agent's promise.
\<close>

definition eventLookupAgent_logged :: "console \<Rightarrow> env \<Rightarrow> jsstring \<Rightarrow> jsstring \<Rightarrow> exn + content" where
  "eventLookupAgent_logged console env query thread_id =
     (case (case checkpoint_load env thread_id of
              Inl error \<Rightarrow> Inl error
            | Inr saved \<Rightarrow>
                (case run_graph_logged console env recursionLimit AgentNode
                        (saved @ [HumanMessage query]) of
                   Inl error \<Rightarrow> Inl error
                 | Inr finalState \<Rightarrow>
                     (case rev finalState of
                        [] \<Rightarrow> Inl TypeError
                      | m # _ \<Rightarrow> Inr (message_content m)))) of
        Inr c \<Rightarrow> Inr c
      | Inl error \<Rightarrow>
          (case console (js ''Error in event lookup agent:'') of
             Some error' \<Rightarrow> Inl error'
           | None \<Rightarrow> Inr (Text NO_RESULTS_FOUND)))"

text \<open>
  One turn of the search loop (lines 196 to 213): the time it takes, and its entry or what
  it throws into the outer \<^verbatim>\<open>try\<close>. The calls of lines 197 and 198 are outside the inner
  \<^verbatim>\<open>try\<close>, the call of line 207 is inside it, the call of line 210 is in its \<^verbatim>\<open>catch\<close>.
\<close>

definition search_logged :: "console \<Rightarrow> env \<Rightarrow> nat \<Rightarrow> jsstring \<Rightarrow> nat \<times> (exn + search_entry)" where
  "search_logged console env i searchQuery =
     (case console (js ''Web search tool called with query:'') of
        Some error \<Rightarrow> (0, Inl error)
      | None \<Rightarrow>
          (case console (js ''Waiting for search results...'') of
             Some error \<Rightarrow> (0, Inl error)
           | None \<Rightarrow>
               (case race_timeout (tavily env i searchQuery) search_deadline_ms (js ''Search timeout'') of
                  (d, r) \<Rightarrow>
                    (case (case r of
                             Inl error \<Rightarrow> Inl error
                           | Inr result \<Rightarrow>
                               (case console (js ''Search completed successfully'') of
                                  Some error \<Rightarrow> Inl error
                                | None \<Rightarrow> Inr result)) of
                       Inr result \<Rightarrow> (d, Inr (SearchOk searchQuery result))
                     | Inl error \<Rightarrow>
                         (case console (js ''Search failed or timed out:'') of
                            Some error' \<Rightarrow> (d, Inl error')
                          | None \<Rightarrow> (d, Inr (SearchErr searchQuery (message error))))))))"

fun run_searches_logged :: "console \<Rightarrow> env \<Rightarrow> nat \<Rightarrow> jsstring list \<Rightarrow> nat \<times> (exn + search_entry list)" where
  "run_searches_logged console env i [] = (0, Inr [])"
| "run_searches_logged console env i (searchQuery # rest) =
     (case search_logged console env i searchQuery of
        (d, Inl error) \<Rightarrow> (d, Inl error)
      | (d, Inr entry) \<Rightarrow>
          (case run_searches_logged console env (Suc i) rest of
             (d', Inl error) \<Rightarrow> (d + d', Inl error)
           | (d', Inr entries) \<Rightarrow> (d + d', Inr (entry # entries))))"

text \<open>
  \<^verbatim>\<open>webSearchAgent\<close>: what the search loop throws is logged by the outer \<^verbatim>\<open>catch\<close> (lines 243
  to 246), which returns the fallback; a throw of that call rejects the promise.
\<close>

definition webSearchAgent_logged :: "console \<Rightarrow> env \<Rightarrow> jsstring \<Rightarrow> jsstring \<Rightarrow> content timed" where
  "webSearchAgent_logged console env query dbResults =
     (case web_agent_setup env of
        Some error \<Rightarrow> (0, Inl error)
      | None \<Rightarrow>
          (case run_searches_logged console env 0 (searchQueries_of query) of
             (d1, Inl error) \<Rightarrow>
               (case console (js ''Error in web search agent:'') of
                  Some error' \<Rightarrow> (d1, Inl error')
                | None \<Rightarrow> (d1, Inr (Text (unverified_fallback dbResults))))
           | (d1, Inr searchResults) \<Rightarrow>
               (case synthesize env
                       \<lparr>original_query = query, database_results = dbResults,
                        web_search_results = searchResults\<rparr> of
                  (d2, c) \<Rightarrow> (d1 + d2, Inr c))))"


definition forward_branch_logged :: "console \<Rightarrow> env \<Rightarrow> jsstring \<Rightarrow> jsstring \<Rightarrow> exn + content" where
  "forward_branch_logged console env query dbResults =
     (case console (js ''Proceeding to web search'') of
        Some error \<Rightarrow> Inl error
      | None \<Rightarrow>
          (case str_split dbResults PASS_TO_WEB_AGENT of
             head_text # block # _ \<Rightarrow>
               (case snd (race_timeout
                       (webSearchAgent_logged console env
                          (JSON_stringify_object (enhancedQuery query head_text block)) dbResults)
                       web_stage_deadline_ms (js ''Web search process timeout'')) of
                  Inr finalResults \<Rightarrow> Inr finalResults
                | Inl error \<Rightarrow>
                    (case console (js ''Web search timed out or failed, returning available information'') of
                       Some error' \<Rightarrow> Inl error'
                     | None \<Rightarrow> Inr (Text (some_events_fallback head_text))))
           | _ \<Rightarrow> Inl TypeError))"

definition web_only_branch_logged :: "console \<Rightarrow> env \<Rightarrow> jsstring \<Rightarrow> exn + content" where
  "web_only_branch_logged console env query =
     (case console (js ''No database results, proceeding with web-only search'') of
        Some error \<Rightarrow> Inl error
      | None \<Rightarrow>
          (case snd (race_timeout
                  (webSearchAgent_logged console env query (js ''No database results found.''))
                  web_stage_deadline_ms (js ''Web search process timeout'')) of
             Inr finalResults \<Rightarrow> Inr finalResults
           | Inl error \<Rightarrow> Inr (Text nothing_found)))"

definition return_results_logged :: "console \<Rightarrow> content \<Rightarrow> exn + content" where
  "return_results_logged console dbResults =
     (case console (js ''Returning database results only'') of
        Some error \<Rightarrow> Inl error
      | None \<Rightarrow> Inr dbResults)"

definition branches_logged :: "console \<Rightarrow> env \<Rightarrow> jsstring \<Rightarrow> content \<Rightarrow> exn + content" where
  "branches_logged console env query c =
     (case c of
        Blocks bs \<Rightarrow> return_results_logged console (Blocks bs)
      | Text dbResults \<Rightarrow>
          if dbResults \<noteq> [] then
            (if str_includes dbResults PASS_TO_WEB_AGENT
             then forward_branch_logged console env query dbResults
             else if str_includes dbResults NO_RESULTS_FOUND
             then web_only_branch_logged console env query
             else return_results_logged console (Text dbResults))
          else return_results_logged console (Text dbResults))"

text \<open>The body of the \<^verbatim>\<open>try\<close>, from its first statement on, and the function with its \<^verbatim>\<open>catch\<close>.\<close>

definition callAgent_logged_try :: "console \<Rightarrow> env \<Rightarrow> jsstring \<Rightarrow> jsstring \<Rightarrow> exn + content" where
  "callAgent_logged_try console env query thread_id =
     (case console (js ''Starting agent workflow with query:'') of
        Some error \<Rightarrow> Inl error
      | None \<Rightarrow>
          (case eventLookupAgent_logged console env query thread_id of
             Inl error \<Rightarrow> Inl error
           | Inr dbResults \<Rightarrow>
               (case console (js ''Database results received'') of
                  Some error \<Rightarrow> Inl error
                | None \<Rightarrow> branches_logged console env query dbResults)))"

definition callAgent_logged :: "console \<Rightarrow> env \<Rightarrow> jsstring \<Rightarrow> jsstring \<Rightarrow> exn + content" where
  "callAgent_logged console env query thread_id =
     (case callAgent_logged_try console env query thread_id of
        Inl error \<Rightarrow>
          (case console (js ''Error in main agent workflow:'') of
             Some error' \<Rightarrow> Inl error'
           | None \<Rightarrow> Inr (Text apology))
      | Inr c \<Rightarrow> Inr c)"

section \<open>The handoff as the specification words it\<close>

text \<open>
  A decision is \<open>Forward\<close> with a summary and the search directives, or \<open>Terminal\<close>, with a
  flag for the no-results marker. \<open>text_before\<close> and \<open>text_after\<close> are the text before the
  first occurrence of a marker and everything after that occurrence.
\<close>

datatype handoff_decision = Forward jsstring "jsstring list" | Terminal bool

definition text_before :: "jsstring \<Rightarrow> jsstring \<Rightarrow> jsstring" where
  "text_before marker s = (case str_index_of s marker of None \<Rightarrow> s | Some i \<Rightarrow> take i s)"

definition text_after :: "jsstring \<Rightarrow> jsstring \<Rightarrow> jsstring" where
  "text_after marker s =
     (case str_index_of s marker of None \<Rightarrow> [] | Some i \<Rightarrow> drop (i + length marker) s)"

definition nonempty_trimmed_lines :: "jsstring \<Rightarrow> jsstring list" where
  "nonempty_trimmed_lines s = filter (\<lambda>line. line \<noteq> []) (map str_trim (str_split s [0x0A]))"

text \<open>
  The specification's rule: everything after the forward marker is the directive block,
  the text before it the summary.
\<close>

definition spec_handoff :: "jsstring \<Rightarrow> handoff_decision" where
  "spec_handoff out =
     (if str_includes out PASS_TO_WEB_AGENT then
        Forward (text_before PASS_TO_WEB_AGENT out)
          (nonempty_trimmed_lines (text_after PASS_TO_WEB_AGENT out))
      else Terminal (str_includes out NO_RESULTS_FOUND))"

text \<open>
  The decision the code takes on a retrieval answer: the summary it puts into the
  enhanced query and the queries the verification agent reads back from it.
\<close>

definition handoff :: "jsstring \<Rightarrow> jsstring \<Rightarrow> handoff_decision" where
  "handoff query out =
     (if str_includes out PASS_TO_WEB_AGENT then
        (case str_split out PASS_TO_WEB_AGENT of
           head_text # block # _ \<Rightarrow>
             Forward (str_trim head_text)
               (searchQueries_of (JSON_stringify_object (enhancedQuery query head_text block)))
         | _ \<Rightarrow> Terminal False)
      else Terminal (str_includes out NO_RESULTS_FOUND))"

text \<open>The web searches and the synthesis prompts among the events of a run.\<close>

definition web_searches :: "event list \<Rightarrow> jsstring list" where
  "web_searches ev = concat (map (\<lambda>e. case e of WebSearch q \<Rightarrow> [q] | _ \<Rightarrow> []) ev)"

definition syntheses :: "event list \<Rightarrow> prompt list" where
  "syntheses ev = concat (map (\<lambda>e. case e of Synthesis p \<Rightarrow> [p] | _ \<Rightarrow> []) ev)"

text \<open>The model invocations and the completed cycles (tools steps) of a run.\<close>

definition model_invocations :: "event list \<Rightarrow> nat" where
  "model_invocations ev = length (filter (\<lambda>e. e = ModelInvoked) ev)"

definition tool_cycles :: "event list \<Rightarrow> nat" where
  "tool_cycles ev = length (filter (\<lambda>e. e = ToolsExecuted) ev)"

section \<open>Concrete collaborators for the examples\<close>

text \<open>
  An environment in which the vector search finds nothing, the chat model answers
  \<^verbatim>\<open>hello\<close> without a tool call, every web search fails after 5 ms and the synthesis model
  answers after 7 ms.
\<close>

definition demo_env :: env where
  "demo_env =
     \<lparr>similaritySearchWithScore = (\<lambda>q n. VSResult (Some [])),
      chat_model = (\<lambda>ms. Inr (Text (js ''hello''), [])),
      tool_node_error = (\<lambda>tc. js ''Error: tool call failed''),
      checkpoint_load = (\<lambda>t. Inr []),
      web_agent_setup = None,
      tavily = (\<lambda>i q. (5, Inl (Exn (Some (js ''down''))))),
      synthesis_model = (\<lambda>p. (7, Inr (Text (js ''RECOMMENDATIONS: none''))))\<rparr>"

text \<open>
  A chat model that asks for the lookup tool while the run has fewer than \<open>n\<close> messages and
  answers \<^verbatim>\<open>done\<close> from then on.
\<close>

definition answer_after :: "nat \<Rightarrow> message list \<Rightarrow> exn + content \<times> tool_call list" where
  "answer_after n ms =
     (if length ms < n
      then Inr (Text [], [\<lparr>tc_name = js ''events_lookup'', tc_args = Some (js ''brunch'', None),
                           tc_id = js ''call_1''\<rparr>])
      else Inr (Text (js ''done''), []))"

definition lookup_call :: tool_call where
  "lookup_call = \<lparr>tc_name = js ''events_lookup'', tc_args = Some (js ''brunch'', None), tc_id = js ''call_1''\<rparr>"

section \<open>The JSON round trip\<close>

lemma unat_hex_digit: "d < 16 \<Longrightarrow> unat (hex_digit d) = (if d < 10 then 48 + d else 87 + d)"
proof -
  assume d: "d < 16"
  have a: "unat (of_nat (48 + d) :: 16 word) = (48 + d) mod 2 ^ LENGTH(16)" by (rule unat_of_nat)
  have b: "unat (of_nat (87 + d) :: 16 word) = (87 + d) mod 2 ^ LENGTH(16)" by (rule unat_of_nat)
  from d a b show ?thesis unfolding hex_digit_def by simp
qed

lemma hex_value_digit: "d < 16 \<Longrightarrow> hex_value (hex_digit d) = Some d"
  by (simp add: hex_value_def unat_hex_digit Let_def)

lemma hex_decomp: "(n::nat) div 4096 * 4096 + n div 256 mod 16 * 256 + n div 16 mod 16 * 16 + n mod 16 = n"
proof -
  define a where "a = n div 16"
  define b where "b = a div 16"
  define c where "c = b div 16"
  have 1: "n = a * 16 + n mod 16" unfolding a_def by simp
  have 2: "a = b * 16 + a mod 16" unfolding b_def by simp
  have 3: "b = c * 16 + b mod 16" unfolding c_def by simp
  have b': "n div 256 = b" unfolding b_def a_def by (simp add: div_mult2_eq)
  have c': "n div 4096 = c" unfolding c_def b_def a_def by (simp add: div_mult2_eq)
  have "c * 4096 + b mod 16 * 256 + a mod 16 * 16 + n mod 16 = n"
    using 1 2 3 by linarith
  then show ?thesis unfolding b' c' a_def[symmetric] .
qed

lemma hex4_value_hex4:
  "hex4_value (hex_digit (unat c div 4096)) (hex_digit (unat c div 256 mod 16))
     (hex_digit (unat c div 16 mod 16)) (hex_digit (unat c mod 16)) = Some c"
proof -
  have lt: "unat c < 65536" using unsigned_less[of c] by simp
  then have d1: "unat c div 4096 < 16" by simp
  show ?thesis
    using d1 by (simp add: hex4_value_def hex_value_digit hex_decomp)
qed

lemma scan_unicode_escape:
  "scan_string ([0x5C, 0x75] @ hex4 c @ t) = map_option (apfst ((#) c)) (scan_string t)"
  by (simp add: hex4_def hex4_value_hex4)

lemma scan_literal:
  "c \<noteq> 0x22 \<Longrightarrow> c \<noteq> 0x5C \<Longrightarrow> \<not> c < 0x20 \<Longrightarrow>
   scan_string (c # t) = map_option (apfst ((#) c)) (scan_string t)"
  by simp

lemma scan_quote_unit:
  "scan_string (quote_unit c @ t) = map_option (apfst ((#) c)) (scan_string t)"
proof -
  consider (short) "c = 0x08 \<or> c = 0x09 \<or> c = 0x0A \<or> c = 0x0C \<or> c = 0x0D \<or> c = 0x22 \<or> c = 0x5C"
    | (uni) "\<not> (c = 0x08 \<or> c = 0x09 \<or> c = 0x0A \<or> c = 0x0C \<or> c = 0x0D \<or> c = 0x22 \<or> c = 0x5C)"
        "c < 0x20 \<or> is_surrogate c"
    | (lit) "\<not> (c = 0x08 \<or> c = 0x09 \<or> c = 0x0A \<or> c = 0x0C \<or> c = 0x0D \<or> c = 0x22 \<or> c = 0x5C)"
        "\<not> (c < 0x20 \<or> is_surrogate c)"
    by blast
  then show ?thesis
  proof cases
    case short
    then show ?thesis by (auto simp: quote_unit_def unescape_def)
  next
    case uni
    then have "quote_unit c = [0x5C, 0x75] @ hex4 c" by (simp add: quote_unit_def)
    then show ?thesis using scan_unicode_escape[of c t] by simp
  next
    case lit
    then have "quote_unit c = [c]" by (simp add: quote_unit_def)
    then show ?thesis using lit by simp
  qed
qed

lemma high_surrogate_literal:
  "is_high_surrogate c \<Longrightarrow> c \<noteq> 0x22 \<and> c \<noteq> 0x5C \<and> \<not> c < 0x20"
  by (auto simp: is_high_surrogate_def word_le_nat_alt word_less_nat_alt)

lemma low_surrogate_literal:
  "is_low_surrogate c \<Longrightarrow> c \<noteq> 0x22 \<and> c \<noteq> 0x5C \<and> \<not> c < 0x20"
  by (auto simp: is_low_surrogate_def word_le_nat_alt word_less_nat_alt)

lemma scan_quote_body: "scan_string (quote_body s @ 0x22 # t) = Some (s, t)"
proof (induction s rule: quote_body.induct)
  case 1
  show ?case by simp
next
  case (2 c)
  have "scan_string (quote_unit c @ 0x22 # t) = map_option (apfst ((#) c)) (scan_string (0x22 # t))"
    by (rule scan_quote_unit)
  then show ?case by simp
next
  case (3 c d cs)
  show ?case
  proof (cases "is_high_surrogate c \<and> is_low_surrogate d")
    case True
    then have q: "quote_body (c # d # cs) = c # d # quote_body cs" by simp
    from True have lc: "c \<noteq> 0x22" "c \<noteq> 0x5C" "\<not> c < 0x20"
      using high_surrogate_literal by blast+
    from True have ld: "d \<noteq> 0x22" "d \<noteq> 0x5C" "\<not> d < 0x20"
      using low_surrogate_literal by blast+
    have "scan_string (c # d # quote_body cs @ 0x22 # t)
            = map_option (apfst ((#) c)) (scan_string (d # quote_body cs @ 0x22 # t))"
      using lc by (rule scan_literal)
    also have "scan_string (d # quote_body cs @ 0x22 # t)
            = map_option (apfst ((#) d)) (scan_string (quote_body cs @ 0x22 # t))"
      using ld by (rule scan_literal)
    finally show ?thesis using "3.IH"(1)[OF True] q by simp
  next
    case False
    then have q: "quote_body (c # d # cs) = quote_unit c @ quote_body (d # cs)" by auto
    have "scan_string (quote_unit c @ (quote_body (d # cs) @ 0x22 # t))
            = map_option (apfst ((#) c)) (scan_string (quote_body (d # cs) @ 0x22 # t))"
      by (rule scan_quote_unit)
    then show ?thesis using "3.IH"(2)[OF False] q by simp
  qed
qed

lemma lex_quoted: "lex (QuoteJSONString s @ t) = map_option ((#) (TStr s)) (lex t)"
proof -
  have "lex (0x22 # (quote_body s @ 0x22 # t)) = map_option ((#) (TStr s)) (lex t)"
    by (simp add: scan_quote_body is_json_ws_def)
  then show ?thesis by (simp add: QuoteJSONString_def)
qed

lemma lex_member:
  "lex (stringify_member kv @ t) = map_option (\<lambda>ts. TStr (fst kv) # TColon # TStr (snd kv) # ts) (lex t)"
proof -
  have "lex (QuoteJSONString (fst kv) @ (0x3A # QuoteJSONString (snd kv) @ t))
          = map_option ((#) (TStr (fst kv))) (lex (0x3A # QuoteJSONString (snd kv) @ t))"
    by (rule lex_quoted)
  also have "lex (0x3A # QuoteJSONString (snd kv) @ t) = map_option ((#) TColon) (lex (QuoteJSONString (snd kv) @ t))"
    by (simp add: is_json_ws_def)
  also have "lex (QuoteJSONString (snd kv) @ t) = map_option ((#) (TStr (snd kv))) (lex t)"
    by (rule lex_quoted)
  finally show ?thesis by (simp add: stringify_member_def option.map_comp comp_def)
qed

lemma lex_members:
  "lex (join_comma (map stringify_member ms) @ [0x7D]) = Some (member_tokens ms @ [TRBrace])"
proof (induction ms rule: member_tokens.induct)
  case 1
  show ?case by (simp add: is_json_ws_def)
next
  case (2 kv)
  have "lex (stringify_member kv @ [0x7D]) = map_option (\<lambda>ts. TStr (fst kv) # TColon # TStr (snd kv) # ts) (lex [0x7D])"
    by (rule lex_member)
  then show ?case by (simp add: is_json_ws_def)
next
  case (3 kv kv' kvs)
  have "lex (stringify_member kv @ (0x2C # join_comma (map stringify_member (kv' # kvs)) @ [0x7D]))
      = map_option (\<lambda>ts. TStr (fst kv) # TColon # TStr (snd kv) # ts)
          (lex (0x2C # join_comma (map stringify_member (kv' # kvs)) @ [0x7D]))"
    by (rule lex_member)
  moreover have "lex (0x2C # join_comma (map stringify_member (kv' # kvs)) @ [0x7D])
      = map_option ((#) TComma) (lex (join_comma (map stringify_member (kv' # kvs)) @ [0x7D]))"
    by (simp add: is_json_ws_def)
  ultimately show ?case using "3.IH" by simp
qed

lemma pafter_members:
  "pafter (JStr v) (CObj acc k # st) (TComma # member_tokens (kv # kvs) @ TRBrace # ts)
     = pafter (JObj (rev acc @ (k, JStr v) # map (\<lambda>m. (fst m, JStr (snd m))) (kv # kvs))) st ts"
proof (induction kvs arbitrary: acc k v kv)
  case Nil
  show ?case by simp
next
  case (Cons kv' kvs)
  have step: "pafter (JStr v) (CObj acc k # st) (TComma # member_tokens (kv # kv' # kvs) @ TRBrace # ts)
      = pafter (JStr (snd kv)) (CObj ((k, JStr v) # acc) (fst kv) # st)
          (TComma # member_tokens (kv' # kvs) @ TRBrace # ts)"
    by simp
  have ih: "pafter (JStr (snd kv)) (CObj ((k, JStr v) # acc) (fst kv) # st)
          (TComma # member_tokens (kv' # kvs) @ TRBrace # ts)
      = pafter (JObj (rev ((k, JStr v) # acc) @ (fst kv, JStr (snd kv))
          # map (\<lambda>m. (fst m, JStr (snd m))) (kv' # kvs))) st ts"
    by (rule Cons.IH)
  have eq: "rev ((k, JStr v) # acc) @ (fst kv, JStr (snd kv)) # map (\<lambda>m. (fst m, JStr (snd m))) (kv' # kvs)
      = rev acc @ (k, JStr v) # map (\<lambda>m. (fst m, JStr (snd m))) (kv # kv' # kvs)"
    by simp
  show ?case unfolding step ih eq ..
qed

lemma pval_object:
  "pval st (TLBrace # member_tokens ms @ TRBrace # ts)
     = pafter (JObj (map (\<lambda>m. (fst m, JStr (snd m))) ms)) st ts"
proof (cases ms)
  case Nil
  then show ?thesis by simp
next
  case ms: (Cons kv kvs)
  show ?thesis
  proof (cases kvs)
    case Nil
    with ms show ?thesis by simp
  next
    case (Cons kv' kvs')
    have step: "pval st (TLBrace # member_tokens (kv # kv' # kvs') @ TRBrace # ts)
        = pafter (JStr (snd kv)) (CObj [] (fst kv) # st)
            (TComma # member_tokens (kv' # kvs') @ TRBrace # ts)"
      by simp
    have ih: "pafter (JStr (snd kv)) (CObj [] (fst kv) # st)
            (TComma # member_tokens (kv' # kvs') @ TRBrace # ts)
        = pafter (JObj (rev [] @ (fst kv, JStr (snd kv))
            # map (\<lambda>m. (fst m, JStr (snd m))) (kv' # kvs'))) st ts"
      by (rule pafter_members)
    have eq: "rev [] @ (fst kv, JStr (snd kv)) # map (\<lambda>m. (fst m, JStr (snd m))) (kv' # kvs')
        = map (\<lambda>m. (fst m, JStr (snd m))) (kv # kv' # kvs')"
      by simp
    show ?thesis unfolding ms Cons step ih eq ..
  qed
qed

lemma JSON_parse_stringify_object:
  "JSON_parse (JSON_stringify_object fs) = Some (JObj (map (\<lambda>m. (fst m, JStr (snd m))) (defined_members fs)))"
proof -
  have "lex (JSON_stringify_object fs) = Some (TLBrace # member_tokens (defined_members fs) @ [TRBrace])"
    using lex_members[of "defined_members fs"]
    by (simp add: JSON_stringify_object_def is_json_ws_def)
  moreover have "pval [] (TLBrace # member_tokens (defined_members fs) @ TRBrace # [])
      = pafter (JObj (map (\<lambda>m. (fst m, JStr (snd m))) (defined_members fs))) [] []"
    by (rule pval_object)
  ultimately show ?thesis by (simp add: JSON_parse_def)
qed

text \<open>Some texts and what \<^verbatim>\<open>JSON.parse\<close> makes of them.\<close>

lemma parse_examples:
  \<open>JSON_parse (js '' {"a": [true, null, -2.50e3], "b": {}} '')
     = Some (JObj [(js ''a'', JArr [JBool True, JNull, JNum (Number True 250 1)]),
                   (js ''b'', JObj [])])\<close>
  \<open>JSON_parse (js ''[1,]'') = None\<close>
  \<open>JSON_parse (js ''01'') = None\<close>
  \<open>JSON_parse (js ''{"a":1,}'') = None\<close>
  \<open>JSON_parse (js ''"a" "b"'') = None\<close>
  \<open>JSON_parse (js '''') = None\<close>
  by (simp_all add: JSON_parse_def js_def is_json_ws_def is_digit_def scan_number_def scan_sign_def
      scan_int_def scan_frac_def scan_exp_def digits_value_def digit_value_def)

lemma parse_escapes:
  \<open>JSON_parse ([0x22, 0x5C, 0x6E, 0x5C, 0x75, 0x30, 0x30, 0x34, 0x31, 0x22]) = Some (JStr [0x0A, 0x41])\<close>
  \<open>JSON_parse ([0x22, 0x0A, 0x22]) = None\<close>
  by (simp_all add: JSON_parse_def is_json_ws_def is_digit_def unescape_def hex4_value_def
      hex_value_def)

lemma tiny_number_is_falsy:
  "\<not> number_nonzero (Number False 1 (- 400)) \<and> number_nonzero (Number False 1 (- 300))
   \<and> \<not> number_nonzero (Number True 0 0)"
  by (simp add: number_nonzero_def)

section \<open>Splitting at a marker, lines and trimming\<close>

lemma str_split_index:
  assumes "sep \<noteq> []"
  shows "str_split s sep =
    (case str_index_of s sep of
       None \<Rightarrow> [s]
     | Some i \<Rightarrow> take i s # str_split (drop (i + length sep) s) sep)"
proof (induction s)
  case Nil
  with assms show ?case by simp
next
  case (Cons c cs)
  show ?case
  proof (cases "prefix sep (c # cs)")
    case True
    from assms have "drop (length sep) (c # cs) = drop (length sep - 1) cs"
      by (cases sep) simp_all
    with True show ?thesis by simp
  next
    case False
    then show ?thesis using Cons.IH by (simp split: option.splits)
  qed
qed

lemma str_split_hd:
  assumes "sep \<noteq> []"
  shows "\<exists>rest. str_split s sep = text_before sep s # rest"
  using str_split_index[OF assms, of s]
  by (simp add: text_before_def split: option.splits)

lemma str_split_forward:
  assumes "sep \<noteq> []" and "str_includes s sep"
  shows "\<exists>rest. str_split s sep
           = text_before sep s # text_before sep (text_after sep s) # rest"
proof -
  from assms(2) obtain i where i: "str_index_of s sep = Some i"
    by (auto simp: str_includes_def)
  obtain rest where r: "str_split (text_after sep s) sep = text_before sep (text_after sep s) # rest"
    using str_split_hd[OF assms(1)] by blast
  have "str_split s sep = take i s # str_split (drop (i + length sep) s) sep"
    using str_split_index[OF assms(1), of s] i by simp
  with i r show ?thesis by (simp add: text_before_def text_after_def)
qed

text \<open>\<open>text_before\<close> and \<open>text_after\<close> cut at the first occurrence of the marker.\<close>

lemma index_decompose:
  "str_index_of s sep = Some i \<Longrightarrow> s = take i s @ sep @ drop (i + length sep) s"
proof (induction s arbitrary: i)
  case Nil
  then show ?case by (simp split: if_splits)
next
  case (Cons c cs)
  show ?case
  proof (cases "prefix sep (c # cs)")
    case True
    with Cons.prems have i: "i = 0" by simp
    from True obtain t where "c # cs = sep @ t" by (auto simp: prefix_def)
    then show ?thesis unfolding i by simp
  next
    case False
    with Cons.prems obtain j where j: "str_index_of cs sep = Some j" and i: "i = Suc j" by auto
    from Cons.IH[OF j] show ?thesis unfolding i by simp
  qed
qed

lemma index_first:
  "str_index_of s sep = Some i \<Longrightarrow> j < i \<Longrightarrow> \<not> prefix sep (drop j s)"
proof (induction s arbitrary: i j)
  case Nil
  then show ?case by (simp split: if_splits)
next
  case (Cons c cs)
  show ?case
  proof (cases "prefix sep (c # cs)")
    case True
    with Cons.prems show ?thesis by simp
  next
    case False
    with Cons.prems obtain k where k: "str_index_of cs sep = Some k" and i: "i = Suc k" by auto
    show ?thesis
    proof (cases j)
      case 0
      with False show ?thesis by simp
    next
      case (Suc j')
      with Cons.prems(2) i have "j' < k" by simp
      from Cons.IH[OF k this] Suc show ?thesis by simp
    qed
  qed
qed

lemma text_before_after:
  "str_includes s marker \<Longrightarrow> s = text_before marker s @ marker @ text_after marker s"
  by (auto simp: str_includes_def text_before_def text_after_def dest: index_decompose)

lemma single_marker_block:
  "\<not> str_includes t marker \<Longrightarrow> text_before marker t = t"
  by (simp add: str_includes_def text_before_def)

lemma split_nl_Cons:
  "str_split (c # cs) [0x0A] =
     (if c = 0x0A then [] # str_split cs [0x0A]
      else (case str_split cs [0x0A] of [] \<Rightarrow> [[c]] | p # ps \<Rightarrow> (c # p) # ps))"
  by simp

lemma str_split_nonempty: "str_split s sep \<noteq> []"
  by (induction s sep rule: str_split.induct) (auto split: list.splits)

lemma str_trim_Nil: "str_trim [] = []"
  by (simp add: str_trim_def)

lemma str_trim_ws_Cons: "is_ws c \<Longrightarrow> str_trim (c # l) = str_trim l"
  by (simp add: str_trim_def)

lemma str_trim_ws_snoc: "is_ws c \<Longrightarrow> str_trim (l @ [c]) = str_trim l"
proof (cases "\<forall>x\<in>set l. is_ws x")
  case True
  assume "is_ws c"
  from True have l: "dropWhile is_ws l = []" by (simp add: dropWhile_eq_Nil_conv)
  from True \<open>is_ws c\<close> have lc: "dropWhile is_ws (l @ [c]) = []" by (simp add: dropWhile_eq_Nil_conv)
  show ?thesis unfolding str_trim_def l lc ..
next
  case False
  assume c: "is_ws c"
  from False have lc: "dropWhile is_ws (l @ [c]) = dropWhile is_ws l @ [c]"
    by (auto simp: dropWhile_append1)
  show ?thesis unfolding str_trim_def lc using c by simp
qed

lemma nl_is_ws: "is_ws 0x0A"
  by (simp add: is_ws_def)

lemma lines_ws_Cons: "is_ws c \<Longrightarrow> nonempty_trimmed_lines (c # s) = nonempty_trimmed_lines s"
proof -
  assume c: "is_ws c"
  obtain p ps where sp: "str_split s [0x0A] = p # ps"
    using str_split_nonempty[of s "[0x0A]"] by (cases "str_split s [0x0A]") auto
  show ?thesis
  proof (cases "c = 0x0A")
    case True
    then show ?thesis by (simp add: nonempty_trimmed_lines_def str_trim_Nil)
  next
    case False
    with sp have "str_split (c # s) [0x0A] = (c # p) # ps" by simp
    with sp c show ?thesis by (simp add: nonempty_trimmed_lines_def str_trim_ws_Cons)
  qed
qed

lemma lines_dropWhile: "nonempty_trimmed_lines (dropWhile is_ws s) = nonempty_trimmed_lines s"
  by (induction s) (simp_all add: lines_ws_Cons)

lemma split_nl_snoc:
  "str_split (s @ [c]) [0x0A] =
     (if c = 0x0A then str_split s [0x0A] @ [[]]
      else butlast (str_split s [0x0A]) @ [last (str_split s [0x0A]) @ [c]])"
proof (induction s)
  case Nil
  show ?case by simp
next
  case (Cons a s)
  obtain p ps where sp: "str_split s [0x0A] = p # ps"
    using str_split_nonempty[of s "[0x0A]"] by (cases "str_split s [0x0A]") auto
  obtain q qs where sq: "str_split (s @ [c]) [0x0A] = q # qs"
    using str_split_nonempty[of "s @ [c]" "[0x0A]"] by (cases "str_split (s @ [c]) [0x0A]") auto
  show ?case
  proof (cases "a = 0x0A")
    case True
    then show ?thesis using Cons.IH sp by simp
  next
    case False
    have l: "str_split (a # s) [0x0A] = (a # p) # ps" using False sp by simp
    have r: "str_split ((a # s) @ [c]) [0x0A] = (a # q) # qs" using False sq by simp
    show ?thesis
    proof (cases "c = 0x0A")
      case True
      with Cons.IH sp sq have "q # qs = (p # ps) @ [[]]" by simp
      then have "q = p" "qs = ps @ [[]]" by simp_all
      with True l r show ?thesis by simp
    next
      case cn: False
      with Cons.IH sp sq have e: "q # qs = butlast (p # ps) @ [last (p # ps) @ [c]]" by simp
      show ?thesis
      proof (cases ps)
        case Nil
        with e have "q = p @ [c]" "qs = []" by simp_all
        with cn l r Nil show ?thesis by simp
      next
        case (Cons p' ps')
        with e have "q = p" "qs = butlast ps @ [last ps @ [c]]" by simp_all
        with cn l r Cons show ?thesis by simp
      qed
    qed
  qed
qed

lemma lines_ws_snoc: "is_ws c \<Longrightarrow> nonempty_trimmed_lines (s @ [c]) = nonempty_trimmed_lines s"
proof -
  assume c: "is_ws c"
  let ?ls = "str_split s [0x0A]"
  have ne: "?ls \<noteq> []" by (rule str_split_nonempty)
  then have bl: "?ls = butlast ?ls @ [last ?ls]" by simp
  show ?thesis
  proof (cases "c = 0x0A")
    case True
    then show ?thesis by (simp add: nonempty_trimmed_lines_def split_nl_snoc str_trim_Nil)
  next
    case False
    have "nonempty_trimmed_lines (s @ [c])
        = filter (\<lambda>line. line \<noteq> []) (map str_trim (butlast ?ls @ [last ?ls @ [c]]))"
      using False by (simp add: nonempty_trimmed_lines_def split_nl_snoc)
    also have "\<dots> = filter (\<lambda>line. line \<noteq> []) (map str_trim (butlast ?ls @ [last ?ls]))"
      using c by (simp add: str_trim_ws_snoc)
    also have "\<dots> = nonempty_trimmed_lines s"
      using bl by (simp add: nonempty_trimmed_lines_def)
    finally show ?thesis .
  qed
qed

lemma lines_dropWhile_rev:
  "nonempty_trimmed_lines (rev (dropWhile is_ws (rev s))) = nonempty_trimmed_lines s"
proof (induction s rule: rev_induct)
  case Nil
  show ?case by simp
next
  case (snoc c s)
  show ?case
  proof (cases "is_ws c")
    case True
    then show ?thesis using snoc.IH by (simp add: lines_ws_snoc)
  next
    case False
    then show ?thesis by simp
  qed
qed

lemma lines_str_trim: "nonempty_trimmed_lines (str_trim s) = nonempty_trimmed_lines s"
  unfolding str_trim_def by (simp add: lines_dropWhile_rev lines_dropWhile)

section \<open>The handoff read back by the verification agent\<close>

lemma marker_nonempty: "PASS_TO_WEB_AGENT \<noteq> []"
  by (simp add: PASS_TO_WEB_AGENT_def js_def)

lemma lines_Nil: "nonempty_trimmed_lines [] = []"
  by (simp add: nonempty_trimmed_lines_def str_trim_def)

lemma parse_enhancedQuery:
  "JSON_parse (JSON_stringify_object (enhancedQuery query head_text block))
     = Some (JObj [(js ''originalQuery'', JStr query),
                   (js ''searchSummary'', JStr (str_trim block)),
                   (js ''dbResults'', JStr (str_trim head_text))])"
  unfolding JSON_parse_stringify_object
  by (simp add: enhancedQuery_def defined_members_def List.map_filter_def)

lemma searchSummary_enhancedQuery:
  "get_searchSummary (JObj [(js ''originalQuery'', JStr query),
                   (js ''searchSummary'', JStr s),
                   (js ''dbResults'', JStr d)]) = Inr (Some (JStr s))"
  by (simp add: get_searchSummary_def js_def)

lemma searchQueries_enhancedQuery:
  "searchQueries_of (JSON_stringify_object (enhancedQuery query head_text block))
     = nonempty_trimmed_lines block"
proof (cases "str_trim block = []")
  case True
  have "nonempty_trimmed_lines block = nonempty_trimmed_lines (str_trim block)"
    by (simp add: lines_str_trim)
  with True have "nonempty_trimmed_lines block = []" by (simp add: lines_Nil)
  moreover have "searchQueries_of (JSON_stringify_object (enhancedQuery query head_text block)) = []"
    unfolding searchQueries_of_def parse_enhancedQuery
    by (simp add: searchSummary_enhancedQuery truthy_def True)
  ultimately show ?thesis by simp
next
  case False
  have "searchQueries_of (JSON_stringify_object (enhancedQuery query head_text block))
      = filter (\<lambda>line. 0 < length line) (map str_trim (str_split (str_trim block) [0x0A]))"
    unfolding searchQueries_of_def parse_enhancedQuery
    by (simp add: searchSummary_enhancedQuery truthy_def False)
  also have "\<dots> = nonempty_trimmed_lines (str_trim block)"
    by (simp add: nonempty_trimmed_lines_def)
  finally show ?thesis by (simp add: lines_str_trim)
qed

lemma handoff_forward:
  assumes "str_includes out PASS_TO_WEB_AGENT"
  shows "handoff query out =
     Forward (str_trim (text_before PASS_TO_WEB_AGENT out))
       (nonempty_trimmed_lines (text_before PASS_TO_WEB_AGENT (text_after PASS_TO_WEB_AGENT out)))"
proof -
  obtain rest where "str_split out PASS_TO_WEB_AGENT
      = text_before PASS_TO_WEB_AGENT out
        # text_before PASS_TO_WEB_AGENT (text_after PASS_TO_WEB_AGENT out) # rest"
    using str_split_forward[OF marker_nonempty assms] by blast
  with assms show ?thesis
    by (simp add: handoff_def searchQueries_enhancedQuery)
qed

lemma forward_branch_eq:
  assumes "str_includes out PASS_TO_WEB_AGENT"
  shows "forward_branch env query out =
     web_stage
       (webSearchAgent env
          (JSON_stringify_object (enhancedQuery query (text_before PASS_TO_WEB_AGENT out)
             (text_before PASS_TO_WEB_AGENT (text_after PASS_TO_WEB_AGENT out)))) out)
       (some_events_fallback (text_before PASS_TO_WEB_AGENT out))"
proof -
  obtain rest where "str_split out PASS_TO_WEB_AGENT
      = text_before PASS_TO_WEB_AGENT out
        # text_before PASS_TO_WEB_AGENT (text_after PASS_TO_WEB_AGENT out) # rest"
    using str_split_forward[OF marker_nonempty assms] by blast
  then show ?thesis by (simp add: forward_branch_def)
qed

lemma web_stage_events: "fst (web_stage run fallback) = fst run"
  by (simp add: web_stage_def)

lemma webSearchAgent_events:
  "web_agent_setup env = None \<Longrightarrow>
   fst (webSearchAgent env query dbResults)
     = map WebSearch (searchQueries_of query) @ [Synthesis (synthesis_prompt env query dbResults)]"
  by (simp add: webSearchAgent_def)

lemma web_searches_append: "web_searches (xs @ ys) = web_searches xs @ web_searches ys"
  by (simp add: web_searches_def)

lemma web_searches_map: "web_searches (map WebSearch qs) = qs"
  by (induction qs) (simp_all add: web_searches_def)

lemma web_searches_Synthesis: "web_searches [Synthesis p] = []"
  by (simp add: web_searches_def)

lemma syntheses_append: "syntheses (xs @ ys) = syntheses xs @ syntheses ys"
  by (simp add: syntheses_def)

lemma syntheses_map: "syntheses (map WebSearch qs) = []"
  by (induction qs) (simp_all add: syntheses_def)

lemma str_index_of_Nil: "sep \<noteq> [] \<Longrightarrow> str_index_of [] sep = None"
  by simp

lemma includes_nonempty: "str_includes s sep \<Longrightarrow> sep \<noteq> [] \<Longrightarrow> s \<noteq> []"
  by (auto simp: str_includes_def)

lemma callAgent_after_forward:
  assumes "str_includes out PASS_TO_WEB_AGENT"
  shows "callAgent_after env query (Inr (Text out)) =
     web_stage
       (webSearchAgent env
          (JSON_stringify_object (enhancedQuery query (text_before PASS_TO_WEB_AGENT out)
             (text_before PASS_TO_WEB_AGENT (text_after PASS_TO_WEB_AGENT out)))) out)
       (some_events_fallback (text_before PASS_TO_WEB_AGENT out))"
proof -
  have ne: "out \<noteq> []" using includes_nonempty[OF assms marker_nonempty] .
  have "callAgent_try env query (Inr (Text out)) = forward_branch env query out"
    using assms ne by (simp add: callAgent_try_def)
  then show ?thesis
    unfolding callAgent_after_def forward_branch_eq[OF assms]
    by (simp add: web_stage_def)
qed

lemma demo_setup: "web_agent_setup demo_env = None"
  by (simp add: demo_env_def)

lemma ex_includes: "str_includes (js '' a PASS_TO_WEB_AGENT b PASS_TO_WEB_AGENT c'') PASS_TO_WEB_AGENT"
  by (simp add: str_includes_def PASS_TO_WEB_AGENT_def js_def)

lemma ex_before: "text_before PASS_TO_WEB_AGENT (js '' a PASS_TO_WEB_AGENT b PASS_TO_WEB_AGENT c'') = js '' a ''"
  by (simp add: text_before_def PASS_TO_WEB_AGENT_def js_def)

lemma ex_after: "text_after PASS_TO_WEB_AGENT (js '' a PASS_TO_WEB_AGENT b PASS_TO_WEB_AGENT c'') = js '' b PASS_TO_WEB_AGENT c''"
  by (simp add: text_after_def PASS_TO_WEB_AGENT_def js_def)

lemma ex_block: "text_before PASS_TO_WEB_AGENT (js '' b PASS_TO_WEB_AGENT c'') = js '' b ''"
  by (simp add: text_before_def PASS_TO_WEB_AGENT_def js_def)

lemma ex_trim_a: "str_trim (js '' a '') = js ''a''"
  by (simp add: str_trim_def is_ws_def js_def)

lemma ex_lines_b: "nonempty_trimmed_lines (js '' b '') = [js ''b'']"
  by (simp add: nonempty_trimmed_lines_def str_trim_def is_ws_def js_def)

lemma ex_lines_bc: "nonempty_trimmed_lines (js '' b PASS_TO_WEB_AGENT c'') = [js ''b PASS_TO_WEB_AGENT c'']"
  by (simp add: nonempty_trimmed_lines_def str_trim_def is_ws_def js_def)

section \<open>The forward handoff\<close>

text \<open>
  C1 (as amended). When the retrieval answer contains the forward marker, the decision is
  \<open>Forward\<close>: its summary is the trimmed text before the first occurrence of the marker, and
  its directives are the non-empty trimmed lines of the text between the first occurrence
  and the next one (or the end of the answer when there is no other). These directives are
  the web searches the controller's run issues.
\<close>

theorem forward_handoff:
  assumes "str_includes out PASS_TO_WEB_AGENT"
  shows "handoff query out =
           Forward (str_trim (text_before PASS_TO_WEB_AGENT out))
             (nonempty_trimmed_lines
                (text_before PASS_TO_WEB_AGENT (text_after PASS_TO_WEB_AGENT out)))
         \<and> (web_agent_setup env = None \<longrightarrow>
              web_searches (fst (callAgent_after env query (Inr (Text out))))
                = nonempty_trimmed_lines
                    (text_before PASS_TO_WEB_AGENT (text_after PASS_TO_WEB_AGENT out)))"
proof
  show "handoff query out =
           Forward (str_trim (text_before PASS_TO_WEB_AGENT out))
             (nonempty_trimmed_lines
                (text_before PASS_TO_WEB_AGENT (text_after PASS_TO_WEB_AGENT out)))"
    using assms by (rule handoff_forward)
next
  show "web_agent_setup env = None \<longrightarrow>
              web_searches (fst (callAgent_after env query (Inr (Text out))))
                = nonempty_trimmed_lines
                    (text_before PASS_TO_WEB_AGENT (text_after PASS_TO_WEB_AGENT out))"
  proof
    assume s: "web_agent_setup env = None"
    show "web_searches (fst (callAgent_after env query (Inr (Text out))))
                = nonempty_trimmed_lines
                    (text_before PASS_TO_WEB_AGENT (text_after PASS_TO_WEB_AGENT out))"
      unfolding callAgent_after_forward[OF assms] web_stage_events
        webSearchAgent_events[OF s] searchQueries_enhancedQuery
      by (simp only: web_searches_append web_searches_map web_searches_Synthesis append_Nil2)
  qed
qed

theorem forward_handoff_witness:
  "str_includes (js '' a PASS_TO_WEB_AGENT b PASS_TO_WEB_AGENT c'') PASS_TO_WEB_AGENT
   \<and> handoff (js ''brunch'') (js '' a PASS_TO_WEB_AGENT b PASS_TO_WEB_AGENT c'')
       = Forward (js ''a'') [js ''b'']
   \<and> web_agent_setup demo_env = None
   \<and> web_searches (fst (callAgent_after demo_env (js ''brunch'')
         (Inr (Text (js '' a PASS_TO_WEB_AGENT b PASS_TO_WEB_AGENT c''))))) = [js ''b'']"
  using forward_handoff[OF ex_includes, of "js ''brunch''" demo_env]
  by (simp add: ex_includes ex_before ex_after ex_block ex_trim_a ex_lines_b demo_setup)

text \<open>
  C1 as stated fails when the marker occurs twice: the specification's rule takes everything
  after the first marker as the directive block and the untrimmed text before it as the
  summary, while the code reads the second part of the split only.
\<close>

theorem forward_handoff_counterexample:
  "handoff (js ''brunch'') (js '' a PASS_TO_WEB_AGENT b PASS_TO_WEB_AGENT c'')
     = Forward (js ''a'') [js ''b'']
   \<and> spec_handoff (js '' a PASS_TO_WEB_AGENT b PASS_TO_WEB_AGENT c'')
     = Forward (js '' a '') [js ''b PASS_TO_WEB_AGENT c'']
   \<and> handoff (js ''brunch'') (js '' a PASS_TO_WEB_AGENT b PASS_TO_WEB_AGENT c'')
     \<noteq> spec_handoff (js '' a PASS_TO_WEB_AGENT b PASS_TO_WEB_AGENT c'')"
proof -
  have h: "handoff (js ''brunch'') (js '' a PASS_TO_WEB_AGENT b PASS_TO_WEB_AGENT c'')
     = Forward (js ''a'') [js ''b'']"
    using handoff_forward[OF ex_includes, of "js ''brunch''"]
    by (simp add: ex_before ex_after ex_block ex_trim_a ex_lines_b)
  have s: "spec_handoff (js '' a PASS_TO_WEB_AGENT b PASS_TO_WEB_AGENT c'')
     = Forward (js '' a '') [js ''b PASS_TO_WEB_AGENT c'']"
    by (simp add: spec_handoff_def ex_includes ex_before ex_after ex_lines_bc)
  have "Forward (js ''a'') [js ''b''] \<noteq> Forward (js '' a '') [js ''b PASS_TO_WEB_AGENT c'']"
    by (simp add: js_def)
  with h s show ?thesis by simp
qed

section \<open>An answer without a marker\<close>

lemma plain_out_not_includes:
  "\<not> str_includes (js ''Try Atlanta'') PASS_TO_WEB_AGENT \<and> \<not> str_includes (js ''Try Atlanta'') NO_RESULTS_FOUND"
  by (simp add: str_includes_def PASS_TO_WEB_AGENT_def NO_RESULTS_FOUND_def js_def)

text \<open>
  C2. A retrieval answer with neither marker is a \<open>Terminal\<close> decision: the controller
  returns it as it is and causes no event of the verification agent (no web search, no
  synthesis).
\<close>

theorem plain_answer_returned:
  assumes "\<not> str_includes out PASS_TO_WEB_AGENT" and "\<not> str_includes out NO_RESULTS_FOUND"
  shows "handoff query out = Terminal False
         \<and> callAgent_after env query (Inr (Text out)) = ([], Inr (Text out))
         \<and> (eventLookupAgent env query thread_id = (ev, Inr (Text out)) \<longrightarrow>
              callAgent env query thread_id = (ev, Inr (Text out)))"
proof -
  have a: "callAgent_after env query (Inr (Text out)) = ([], Inr (Text out))"
    using assms by (simp add: callAgent_after_def callAgent_try_def)
  have h: "handoff query out = Terminal False"
    using assms by (simp add: handoff_def)
  from a h show ?thesis by (simp add: callAgent_def)
qed

lemma demo_lookup_returns:
  "eventLookupAgent (demo_env\<lparr>chat_model := (\<lambda>ms. Inr (Text (js ''Try Atlanta''), []))\<rparr>)
     (js ''brunch'') (js ''t1'') = ([ModelInvoked], Inr (Text (js ''Try Atlanta'')))"
  by (simp add: eventLookupAgent_def eventLookupAgent_try_def demo_env_def recursionLimit_def
      eval_nat_numeral callModel_def shouldContinue_def last_tool_calls_def message_content_def)

theorem plain_answer_returned_witness:
  "\<not> str_includes (js ''Try Atlanta'') PASS_TO_WEB_AGENT
   \<and> \<not> str_includes (js ''Try Atlanta'') NO_RESULTS_FOUND
   \<and> eventLookupAgent (demo_env\<lparr>chat_model := (\<lambda>ms. Inr (Text (js ''Try Atlanta''), []))\<rparr>)
        (js ''brunch'') (js ''t1'') = ([ModelInvoked], Inr (Text (js ''Try Atlanta'')))
   \<and> handoff (js ''brunch'') (js ''Try Atlanta'') = Terminal False
   \<and> callAgent_after (demo_env\<lparr>chat_model := (\<lambda>ms. Inr (Text (js ''Try Atlanta''), []))\<rparr>)
        (js ''brunch'') (Inr (Text (js ''Try Atlanta''))) = ([], Inr (Text (js ''Try Atlanta'')))
   \<and> callAgent (demo_env\<lparr>chat_model := (\<lambda>ms. Inr (Text (js ''Try Atlanta''), []))\<rparr>)
        (js ''brunch'') (js ''t1'') = ([ModelInvoked], Inr (Text (js ''Try Atlanta'')))"
  using plain_answer_returned[of "js ''Try Atlanta''" "js ''brunch''"
      "demo_env\<lparr>chat_model := (\<lambda>ms. Inr (Text (js ''Try Atlanta''), []))\<rparr>" "js ''t1''" "[ModelInvoked]"]
    plain_out_not_includes demo_lookup_returns
  by simp

section \<open>A forward marker with an empty directive block\<close>

lemma str_trim_nonws_Cons:
  assumes "\<not> is_ws c"
  shows "str_trim (c # p) \<noteq> []"
proof -
  have "dropWhile is_ws (rev p @ [c]) \<noteq> []"
    using assms by (simp add: dropWhile_eq_Nil_conv)
  with assms show ?thesis by (simp add: str_trim_def)
qed

lemma lines_empty_all_ws:
  "nonempty_trimmed_lines t = [] \<Longrightarrow> \<forall>c\<in>set t. is_ws c"
proof (induction t)
  case Nil
  show ?case by simp
next
  case (Cons c s)
  show ?case
  proof (cases "is_ws c")
    case True
    with Cons show ?thesis by (simp add: lines_ws_Cons)
  next
    case False
    then have cn: "c \<noteq> 0x0A" using nl_is_ws by auto
    obtain p ps where sp: "str_split s [0x0A] = p # ps"
      using str_split_nonempty[of s "[0x0A]"] by (cases "str_split s [0x0A]") auto
    with cn have "str_split (c # s) [0x0A] = (c # p) # ps" by simp
    then have "nonempty_trimmed_lines (c # s) \<noteq> []"
      using str_trim_nonws_Cons[OF False, of p] by (simp add: nonempty_trimmed_lines_def)
    with Cons.prems show ?thesis by simp
  qed
qed

lemma index_hd_mem:
  "str_index_of t sep = Some i \<Longrightarrow> sep \<noteq> [] \<Longrightarrow> hd sep \<in> set t"
proof (induction t arbitrary: i)
  case Nil
  then show ?case by simp
next
  case (Cons c cs)
  show ?case
  proof (cases "prefix sep (c # cs)")
    case True
    with Cons.prems(2) have "hd sep = c" by (cases sep) simp_all
    then show ?thesis by simp
  next
    case False
    with Cons.prems obtain j where "str_index_of cs sep = Some j" by auto
    from Cons.IH[OF this Cons.prems(2)] show ?thesis by simp
  qed
qed

lemma marker_hd_not_ws: "\<not> is_ws (hd PASS_TO_WEB_AGENT)"
  by (simp add: PASS_TO_WEB_AGENT_def js_def is_ws_def)

lemma blank_has_no_marker:
  assumes "nonempty_trimmed_lines t = []"
  shows "text_before PASS_TO_WEB_AGENT t = t"
proof (cases "str_index_of t PASS_TO_WEB_AGENT")
  case None
  then show ?thesis by (simp add: text_before_def)
next
  case (Some i)
  from index_hd_mem[OF Some marker_nonempty] lines_empty_all_ws[OF assms]
  have "is_ws (hd PASS_TO_WEB_AGENT)" by blast
  with marker_hd_not_ws show ?thesis by simp
qed

lemma syntheses_Synthesis: "syntheses [Synthesis p] = [p]"
  by (simp add: syntheses_def)

lemma run_searches_Nil: "run_searches env i [] = (0, [])"
  by simp

lemma empty_block_run:
  assumes inc: "str_includes out PASS_TO_WEB_AGENT"
    and blank: "nonempty_trimmed_lines (text_after PASS_TO_WEB_AGENT out) = []"
    and noexn: "web_agent_setup env = None"
  shows "handoff query out = Forward (str_trim (text_before PASS_TO_WEB_AGENT out)) []"
    and "web_searches (fst (callAgent_after env query (Inr (Text out)))) = []"
    and "syntheses (fst (callAgent_after env query (Inr (Text out)))) =
           [\<lparr>original_query =
               JSON_stringify_object
                 (enhancedQuery query (text_before PASS_TO_WEB_AGENT out)
                    (text_after PASS_TO_WEB_AGENT out)),
             database_results = out, web_search_results = []\<rparr>]"
proof -
  have blk: "text_before PASS_TO_WEB_AGENT (text_after PASS_TO_WEB_AGENT out)
      = text_after PASS_TO_WEB_AGENT out"
    using blank by (rule blank_has_no_marker)
  show "handoff query out = Forward (str_trim (text_before PASS_TO_WEB_AGENT out)) []"
    using handoff_forward[OF inc, of query] blk blank by simp
  have q: "searchQueries_of (JSON_stringify_object
                 (enhancedQuery query (text_before PASS_TO_WEB_AGENT out)
                    (text_after PASS_TO_WEB_AGENT out))) = []"
    using blank by (simp add: searchQueries_enhancedQuery)
  have ev: "fst (callAgent_after env query (Inr (Text out)))
      = [Synthesis (synthesis_prompt env (JSON_stringify_object
                 (enhancedQuery query (text_before PASS_TO_WEB_AGENT out)
                    (text_after PASS_TO_WEB_AGENT out))) out)]"
    unfolding callAgent_after_forward[OF inc] web_stage_events webSearchAgent_events[OF noexn] blk q
    by simp
  show "web_searches (fst (callAgent_after env query (Inr (Text out)))) = []"
    unfolding ev by (rule web_searches_Synthesis)
  show "syntheses (fst (callAgent_after env query (Inr (Text out)))) =
           [\<lparr>original_query =
               JSON_stringify_object
                 (enhancedQuery query (text_before PASS_TO_WEB_AGENT out)
                    (text_after PASS_TO_WEB_AGENT out)),
             database_results = out, web_search_results = []\<rparr>]"
    unfolding ev syntheses_Synthesis synthesis_prompt_def q by simp
qed

text \<open>
  C3 (as amended). When the forward marker is there and the text after it has no
  non-empty trimmed line, the verification agent still runs, with an empty list of
  directives: it issues no web search, and the synthesis model is asked once, on an empty
  batch of search results.
\<close>

theorem empty_block_no_search:
  assumes "str_includes out PASS_TO_WEB_AGENT"
    and "nonempty_trimmed_lines (text_after PASS_TO_WEB_AGENT out) = []"
    and "web_agent_setup env = None"
  shows "handoff query out = Forward (str_trim (text_before PASS_TO_WEB_AGENT out)) []
       \<and> web_searches (fst (callAgent_after env query (Inr (Text out)))) = []
       \<and> syntheses (fst (callAgent_after env query (Inr (Text out)))) =
           [\<lparr>original_query =
               JSON_stringify_object
                 (enhancedQuery query (text_before PASS_TO_WEB_AGENT out)
                    (text_after PASS_TO_WEB_AGENT out)),
             database_results = out, web_search_results = []\<rparr>]"
  using empty_block_run[OF assms] by simp

lemma ex3_includes: "str_includes (js ''Found X PASS_TO_WEB_AGENT '') PASS_TO_WEB_AGENT"
  by (simp add: str_includes_def PASS_TO_WEB_AGENT_def js_def)

lemma ex3_before: "text_before PASS_TO_WEB_AGENT (js ''Found X PASS_TO_WEB_AGENT '') = js ''Found X ''"
  by (simp add: text_before_def PASS_TO_WEB_AGENT_def js_def)

lemma ex3_after: "text_after PASS_TO_WEB_AGENT (js ''Found X PASS_TO_WEB_AGENT '') = js '' ''"
  by (simp add: text_after_def PASS_TO_WEB_AGENT_def js_def)

lemma ex3_blank: "nonempty_trimmed_lines (js '' '') = []"
  by (simp add: nonempty_trimmed_lines_def str_trim_def is_ws_def js_def)

lemma ex3_trim: "str_trim (js ''Found X '') = js ''Found X''"
  by (simp add: str_trim_def is_ws_def js_def)

theorem empty_block_no_search_witness:
  "str_includes (js ''Found X PASS_TO_WEB_AGENT '') PASS_TO_WEB_AGENT
   \<and> nonempty_trimmed_lines (text_after PASS_TO_WEB_AGENT (js ''Found X PASS_TO_WEB_AGENT '')) = []
   \<and> web_agent_setup demo_env = None
   \<and> handoff (js ''brunch'') (js ''Found X PASS_TO_WEB_AGENT '') = Forward (js ''Found X'') []
   \<and> web_searches (fst (callAgent_after demo_env (js ''brunch'')
        (Inr (Text (js ''Found X PASS_TO_WEB_AGENT ''))))) = []
   \<and> map web_search_results (syntheses (fst (callAgent_after demo_env (js ''brunch'')
        (Inr (Text (js ''Found X PASS_TO_WEB_AGENT '')))))) = [[]]"
  using empty_block_no_search[of "js ''Found X PASS_TO_WEB_AGENT ''" demo_env "js ''brunch''"]
  by (simp add: ex3_includes ex3_before ex3_after ex3_blank ex3_trim demo_setup)

text \<open>
  C3 as stated fails: on an answer that ends with the marker the summary is not used as a
  directive, and no web search is issued.
\<close>

theorem empty_block_fallback_counterexample:
  "str_includes (js ''Found X PASS_TO_WEB_AGENT '') PASS_TO_WEB_AGENT
   \<and> nonempty_trimmed_lines (text_after PASS_TO_WEB_AGENT (js ''Found X PASS_TO_WEB_AGENT '')) = []
   \<and> web_searches (fst (callAgent_after demo_env (js ''brunch'')
        (Inr (Text (js ''Found X PASS_TO_WEB_AGENT ''))))) = []
   \<and> web_searches (fst (callAgent_after demo_env (js ''brunch'')
        (Inr (Text (js ''Found X PASS_TO_WEB_AGENT ''))))) \<noteq> [js ''Found X'']"
proof -
  have b: "nonempty_trimmed_lines (text_after PASS_TO_WEB_AGENT (js ''Found X PASS_TO_WEB_AGENT '')) = []"
    by (simp add: ex3_after ex3_blank)
  have "web_searches (fst (callAgent_after demo_env (js ''brunch'')
        (Inr (Text (js ''Found X PASS_TO_WEB_AGENT ''))))) = []"
    using empty_block_run(2)[OF ex3_includes b demo_setup] .
  with b ex3_includes show ?thesis by simp
qed

section \<open>The output of the verification agent\<close>

lemma unverified_fallback_marker:
  "prefix (js ''RECOMMENDATIONS'') (unverified_fallback dbResults) \<and> unverified_fallback dbResults \<noteq> []"
  by (simp add: unverified_fallback_def js_def)

lemma synthesize_value:
  "snd (synthesize env p) =
     (case synthesis_model env p of
        (d, Inr c) \<Rightarrow> if d < synthesis_deadline_ms then c else Text (unverified_fallback (database_results p))
      | (d, Inl error) \<Rightarrow> Text (unverified_fallback (database_results p)))"
  by (simp add: synthesize_def race_timeout_def split: prod.splits sum.splits)

lemma webSearchAgent_value:
  "web_agent_setup env = None \<Longrightarrow>
   snd (snd (webSearchAgent env query dbResults))
     = Inr (snd (synthesize env (synthesis_prompt env query dbResults)))"
  by (simp add: webSearchAgent_def)

lemma synthesis_prompt_db: "database_results (synthesis_prompt env query dbResults) = dbResults"
  by (simp add: synthesis_prompt_def)

text \<open>
  C5 (as amended). Whatever the web searches did, in particular when every one of them
  failed or timed out: when the synthesis model fails, or does not settle before its
  deadline, the verification agent's output is the fallback built from the retrieval
  summary, a non-empty string that begins with \<^verbatim>\<open>RECOMMENDATIONS\<close>; when the synthesis model
  answers in time, the output is its content as it is.
\<close>

theorem verification_output:
  assumes "web_agent_setup env = None"
  shows "snd (snd (webSearchAgent env query dbResults)) =
           Inr (case synthesis_model env (synthesis_prompt env query dbResults) of
                  (d, Inr c) \<Rightarrow>
                    if d < synthesis_deadline_ms then c else Text (unverified_fallback dbResults)
                | (d, Inl error) \<Rightarrow> Text (unverified_fallback dbResults))
         \<and> prefix (js ''RECOMMENDATIONS'') (unverified_fallback dbResults)
         \<and> unverified_fallback dbResults \<noteq> []"
  using webSearchAgent_value[OF assms, of query dbResults] unverified_fallback_marker[of dbResults]
  by (simp add: synthesize_value synthesis_prompt_db split: prod.splits sum.splits)

lemma parse_brunch: "JSON_parse (js ''brunch'') = None"
  by (simp add: JSON_parse_def js_def is_json_ws_def is_digit_def)

lemma queries_brunch: "searchQueries_of (js ''brunch'') = [js ''brunch'']"
  by (simp add: searchQueries_of_def parse_brunch)

theorem verification_output_witness:
  "web_agent_setup (demo_env\<lparr>synthesis_model := (\<lambda>p. (20000, Inr (Text (js ''late''))))\<rparr>) = None
   \<and> snd (snd (webSearchAgent (demo_env\<lparr>synthesis_model := (\<lambda>p. (20000, Inr (Text (js ''late''))))\<rparr>)
        (js ''brunch'') (js ''No database results found.'')))
      = Inr (Text (unverified_fallback (js ''No database results found.'')))
   \<and> prefix (js ''RECOMMENDATIONS'') (unverified_fallback (js ''No database results found.''))"
  using verification_output[of "demo_env\<lparr>synthesis_model := (\<lambda>p. (20000, Inr (Text (js ''late''))))\<rparr>"
      "js ''brunch''" "js ''No database results found.''"]
  by (simp add: demo_env_def synthesis_deadline_ms_def)

text \<open>
  C5 as stated fails on the path where the synthesis succeeds: every search fails, the
  synthesis model answers with the empty string, and that is the output.
\<close>

theorem verification_marker_counterexample:
  "snd (run_searches (demo_env\<lparr>synthesis_model := (\<lambda>p. (7, Inr (Text [])))\<rparr>) 0
          (searchQueries_of (js ''brunch'')))
     = [SearchErr (js ''brunch'') (Some (js ''down''))]
   \<and> snd (snd (webSearchAgent (demo_env\<lparr>synthesis_model := (\<lambda>p. (7, Inr (Text [])))\<rparr>)
        (js ''brunch'') (js ''No database results found.''))) = Inr (Text [])
   \<and> \<not> prefix (js ''RECOMMENDATIONS'') []"
proof -
  let ?E = "demo_env\<lparr>synthesis_model := (\<lambda>p. (7, Inr (Text [])))\<rparr>"
  have s: "web_agent_setup ?E = None" by (simp add: demo_env_def)
  have a: "snd (run_searches ?E 0 (searchQueries_of (js ''brunch'')))
     = [SearchErr (js ''brunch'') (Some (js ''down''))]"
    by (simp add: queries_brunch demo_env_def race_timeout_def search_deadline_ms_def)
  have b: "snd (snd (webSearchAgent ?E (js ''brunch'') (js ''No database results found.''))) = Inr (Text [])"
    unfolding webSearchAgent_value[OF s] synthesize_value
    by (simp add: synthesis_deadline_ms_def)
  have c: "\<not> prefix (js ''RECOMMENDATIONS'') []" by (simp add: js_def)
  from a b c show ?thesis by blast
qed

section \<open>The web-only stage\<close>

lemma no_results_nonempty: "NO_RESULTS_FOUND \<noteq> []"
  by (simp add: NO_RESULTS_FOUND_def js_def)

lemma callAgent_after_web_only:
  assumes "str_includes out NO_RESULTS_FOUND" and "\<not> str_includes out PASS_TO_WEB_AGENT"
  shows "callAgent_after env query (Inr (Text out)) = web_only_branch env query"
proof -
  have ne: "out \<noteq> []" using includes_nonempty[OF assms(1) no_results_nonempty] .
  have "callAgent_try env query (Inr (Text out)) = web_only_branch env query"
    using assms ne by (simp add: callAgent_try_def)
  then show ?thesis
    by (simp add: callAgent_after_def web_only_branch_def web_stage_def)
qed

lemma run_searches_elapsed:
  "fst (run_searches env i qs) \<le> search_deadline_ms * length qs"
proof (induction qs arbitrary: i)
  case Nil
  show ?case by simp
next
  case (Cons q qs)
  obtain d r where t: "race_timeout (tavily env i q) search_deadline_ms (js ''Search timeout'') = (d, r)"
    by (cases "race_timeout (tavily env i q) search_deadline_ms (js ''Search timeout'')") auto
  then have d: "d \<le> search_deadline_ms"
    by (auto simp: race_timeout_def split: if_splits)
  obtain d' es where r: "run_searches env (Suc i) qs = (d', es)"
    by (cases "run_searches env (Suc i) qs") auto
  from Cons.IH[of "Suc i"] r have "d' \<le> search_deadline_ms * length qs" by simp
  with d t r show ?case by simp
qed

lemma synthesize_elapsed: "fst (synthesize env p) \<le> synthesis_deadline_ms"
  by (auto simp: synthesize_def race_timeout_def split: prod.splits sum.splits if_splits)

lemma web_only_value:
  "snd (web_only_branch env query) =
     Inr (case web_agent_setup env of
            Some error \<Rightarrow> Text nothing_found
          | None \<Rightarrow>
              if fst (run_searches env 0 (searchQueries_of query))
                   + fst (synthesize env (synthesis_prompt env query (js ''No database results found.'')))
                 < web_stage_deadline_ms
              then snd (synthesize env (synthesis_prompt env query (js ''No database results found.'')))
              else Text nothing_found)"
  by (simp add: web_only_branch_def web_stage_def webSearchAgent_def race_timeout_def
      split: option.splits)

text \<open>
  C6 (as amended). On a retrieval answer with the no-results marker and without the forward
  marker the controller runs the verification agent in web-only mode. Its output is the
  fixed nothing-found string when building the agent's clients fails or when the searches
  and the synthesis together do not settle before the deadline of the web stage;
  otherwise it is the verification agent's own output, also when every web search failed.
  With at most two search queries the stage always settles in time.
\<close>

theorem web_only_output:
  assumes "str_includes out NO_RESULTS_FOUND" and "\<not> str_includes out PASS_TO_WEB_AGENT"
  shows "callAgent_after env query (Inr (Text out))
           = web_stage (webSearchAgent env query (js ''No database results found.'')) nothing_found
         \<and> snd (callAgent_after env query (Inr (Text out))) =
             Inr (case web_agent_setup env of
                    Some error \<Rightarrow> Text nothing_found
                  | None \<Rightarrow>
                      if fst (run_searches env 0 (searchQueries_of query))
                           + fst (synthesize env
                                   (synthesis_prompt env query (js ''No database results found.'')))
                         < web_stage_deadline_ms
                      then snd (synthesize env
                                 (synthesis_prompt env query (js ''No database results found.'')))
                      else Text nothing_found)
         \<and> (web_agent_setup env = None \<and> length (searchQueries_of query) \<le> 2 \<longrightarrow>
               snd (callAgent_after env query (Inr (Text out)))
                 = Inr (snd (synthesize env
                              (synthesis_prompt env query (js ''No database results found.'')))))"
proof -
  have a: "callAgent_after env query (Inr (Text out)) = web_only_branch env query"
    using assms by (rule callAgent_after_web_only)
  have t: "fst (run_searches env 0 (searchQueries_of query))
             + fst (synthesize env (synthesis_prompt env query (js ''No database results found.'')))
           < web_stage_deadline_ms"
    if "length (searchQueries_of query) \<le> 2"
  proof -
    from that have "search_deadline_ms * length (searchQueries_of query) \<le> 20000"
      by (simp add: search_deadline_ms_def)
    with run_searches_elapsed[of env 0 "searchQueries_of query"]
      synthesize_elapsed[of env "synthesis_prompt env query (js ''No database results found.'')"]
    show ?thesis by (simp add: synthesis_deadline_ms_def web_stage_deadline_ms_def)
  qed
  have c1: "callAgent_after env query (Inr (Text out))
           = web_stage (webSearchAgent env query (js ''No database results found.'')) nothing_found"
    unfolding a by (simp add: web_only_branch_def)
  have c2: "snd (callAgent_after env query (Inr (Text out))) =
             Inr (case web_agent_setup env of
                    Some error \<Rightarrow> Text nothing_found
                  | None \<Rightarrow>
                      if fst (run_searches env 0 (searchQueries_of query))
                           + fst (synthesize env
                                   (synthesis_prompt env query (js ''No database results found.'')))
                         < web_stage_deadline_ms
                      then snd (synthesize env
                                 (synthesis_prompt env query (js ''No database results found.'')))
                      else Text nothing_found)"
    unfolding a by (rule web_only_value)
  have c3: "web_agent_setup env = None \<and> length (searchQueries_of query) \<le> 2 \<longrightarrow>
               snd (callAgent_after env query (Inr (Text out)))
                 = Inr (snd (synthesize env
                              (synthesis_prompt env query (js ''No database results found.''))))"
    unfolding c2 using t by simp
  from c1 c2 c3 show ?thesis by blast
qed

lemma marker_only_includes:
  "str_includes NO_RESULTS_FOUND NO_RESULTS_FOUND \<and> \<not> str_includes NO_RESULTS_FOUND PASS_TO_WEB_AGENT"
  by (simp add: str_includes_def NO_RESULTS_FOUND_def PASS_TO_WEB_AGENT_def js_def)

lemma demo_synthesize:
  "synthesize demo_env p = (7, Text (js ''RECOMMENDATIONS: none''))"
  by (simp add: synthesize_def demo_env_def race_timeout_def synthesis_deadline_ms_def)

theorem web_only_output_witness:
  "str_includes NO_RESULTS_FOUND NO_RESULTS_FOUND
   \<and> \<not> str_includes NO_RESULTS_FOUND PASS_TO_WEB_AGENT
   \<and> web_agent_setup demo_env = None
   \<and> length (searchQueries_of (js ''brunch'')) \<le> 2
   \<and> snd (callAgent_after demo_env (js ''brunch'') (Inr (Text NO_RESULTS_FOUND)))
       = Inr (Text (js ''RECOMMENDATIONS: none''))"
proof -
  have q: "length (searchQueries_of (js ''brunch'')) \<le> 2" by (simp add: queries_brunch)
  from web_only_output[of NO_RESULTS_FOUND demo_env "js ''brunch''"] marker_only_includes demo_setup q
  have "snd (callAgent_after demo_env (js ''brunch'') (Inr (Text NO_RESULTS_FOUND)))
      = Inr (snd (synthesize demo_env
                  (synthesis_prompt demo_env (js ''brunch'') (js ''No database results found.''))))"
    by blast
  with marker_only_includes demo_setup q show ?thesis by (simp add: demo_synthesize)
qed

text \<open>
  C6 as stated fails: the only web query fails, and the output is what the synthesis model
  said, not the nothing-found string.
\<close>

theorem web_only_counterexample:
  "str_includes NO_RESULTS_FOUND NO_RESULTS_FOUND
   \<and> \<not> str_includes NO_RESULTS_FOUND PASS_TO_WEB_AGENT
   \<and> web_search_results (synthesis_prompt demo_env (js ''brunch'') (js ''No database results found.''))
       = [SearchErr (js ''brunch'') (Some (js ''down''))]
   \<and> snd (callAgent_after demo_env (js ''brunch'') (Inr (Text NO_RESULTS_FOUND)))
       = Inr (Text (js ''RECOMMENDATIONS: none''))
   \<and> js ''RECOMMENDATIONS: none'' \<noteq> nothing_found"
proof -
  have a: "web_search_results (synthesis_prompt demo_env (js ''brunch'') (js ''No database results found.''))
       = [SearchErr (js ''brunch'') (Some (js ''down''))]"
    by (simp add: synthesis_prompt_def queries_brunch demo_env_def race_timeout_def search_deadline_ms_def)
  have e: "fst (run_searches demo_env 0 (searchQueries_of (js ''brunch''))) = 5"
    by (simp add: queries_brunch demo_env_def race_timeout_def search_deadline_ms_def)
  have b: "snd (callAgent_after demo_env (js ''brunch'') (Inr (Text NO_RESULTS_FOUND)))
       = Inr (Text (js ''RECOMMENDATIONS: none''))"
    unfolding callAgent_after_web_only[OF marker_only_includes[THEN conjunct1]
        marker_only_includes[THEN conjunct2]] web_only_value
    by (simp add: demo_setup e demo_synthesize web_stage_deadline_ms_def)
  have c: "js ''RECOMMENDATIONS: none'' \<noteq> nothing_found"
    by (simp add: nothing_found_def js_def)
  from a b c marker_only_includes show ?thesis by blast
qed

section \<open>The deadlines\<close>

text \<open>
  C8. The deadlines are 10 seconds for one web search, 15 seconds for the synthesis and
  45 seconds for the whole web stage: a call that settles before its deadline gives its
  own result, a later one the timeout's.
\<close>

theorem deadlines:
  "search_deadline_ms = 10 * 1000
   \<and> synthesis_deadline_ms = 15 * 1000
   \<and> web_stage_deadline_ms = 45 * 1000
   \<and> run_searches (env\<lparr>tavily := (\<lambda>i q. (d, Inr result))\<rparr>) i [searchQuery]
       = (if d < 10 * 1000 then (d, [SearchOk searchQuery result])
          else (10 * 1000, [SearchErr searchQuery (Some (js ''Search timeout''))]))
   \<and> synthesize (env\<lparr>synthesis_model := (\<lambda>p. (d, Inr c))\<rparr>) p
       = (if d < 15 * 1000 then (d, c)
          else (15 * 1000, Text (unverified_fallback (database_results p))))
   \<and> web_stage (ev, (d, Inr c)) fallback
       = (ev, Inr (if d < 45 * 1000 then c else Text fallback))"
  by (simp add: search_deadline_ms_def synthesis_deadline_ms_def web_stage_deadline_ms_def
      race_timeout_def synthesize_def web_stage_def)

section \<open>The answers of the lookup tool\<close>

lemma parse_no_results_object:
  "JSON_parse (JSON_stringify_object ((js ''message'', Some NO_RESULTS_FOUND) # (js ''error'', m) # []))
     = Some (JObj ((js ''message'', JStr NO_RESULTS_FOUND)
          # (case m of None \<Rightarrow> [] | Some e \<Rightarrow> [(js ''error'', JStr e)])))"
  unfolding JSON_parse_stringify_object
  by (simp add: defined_members_def List.map_filter_def split: option.splits)

lemma parse_no_results_plain:
  "JSON_parse (JSON_stringify_object [(js ''message'', Some NO_RESULTS_FOUND)])
     = Some (JObj [(js ''message'', JStr NO_RESULTS_FOUND)])"
  unfolding JSON_parse_stringify_object
  by (simp add: defined_members_def List.map_filter_def)

lemma undefined_member_left_out:
  "JSON_stringify_object [(js ''message'', Some NO_RESULTS_FOUND), (js ''error'', None)]
     = JSON_stringify_object [(js ''message'', Some NO_RESULTS_FOUND)]"
  by (simp add: JSON_stringify_object_def defined_members_def List.map_filter_def)

lemma tool_error_differs:
  "(JSON_stringify_object [(js ''message'', Some NO_RESULTS_FOUND), (js ''error'', m)]
      = JSON_stringify_object [(js ''message'', Some NO_RESULTS_FOUND)]) = (m = None)"
proof (cases m)
  case None
  then show ?thesis by (simp add: undefined_member_left_out)
next
  case (Some e)
  have "JSON_parse (JSON_stringify_object [(js ''message'', Some NO_RESULTS_FOUND), (js ''error'', m)])
      \<noteq> JSON_parse (JSON_stringify_object [(js ''message'', Some NO_RESULTS_FOUND)])"
    unfolding parse_no_results_object parse_no_results_plain using Some by simp
  then have "JSON_stringify_object [(js ''message'', Some NO_RESULTS_FOUND), (js ''error'', m)]
      \<noteq> JSON_stringify_object [(js ''message'', Some NO_RESULTS_FOUND)]"
    by auto
  with Some show ?thesis by simp
qed

text \<open>
  C9 (as amended). On an empty or missing result and on an error of the vector search the
  lookup tool answers with a JSON object whose \<^verbatim>\<open>message\<close> is the no-results marker. The
  answer to an error also has the error's message as its \<^verbatim>\<open>error\<close> member, so the two
  answers are the same text only when the error has no message.
\<close>

theorem lookup_tool_no_results:
  "eventLookupTool (env\<lparr>similaritySearchWithScore := (\<lambda>q k. VSResult (Some []))\<rparr>) query n
     = JSON_stringify_object [(js ''message'', Some NO_RESULTS_FOUND)]
   \<and> eventLookupTool (env\<lparr>similaritySearchWithScore := (\<lambda>q k. VSResult None)\<rparr>) query n
     = JSON_stringify_object [(js ''message'', Some NO_RESULTS_FOUND)]
   \<and> JSON_parse (JSON_stringify_object [(js ''message'', Some NO_RESULTS_FOUND)])
     = Some (JObj [(js ''message'', JStr NO_RESULTS_FOUND)])
   \<and> JSON_parse (eventLookupTool (env\<lparr>similaritySearchWithScore := (\<lambda>q k. VSThrows error)\<rparr>) query n)
     = Some (JObj ((js ''message'', JStr NO_RESULTS_FOUND)
          # (case message error of None \<Rightarrow> [] | Some e \<Rightarrow> [(js ''error'', JStr e)])))
   \<and> ((eventLookupTool (env\<lparr>similaritySearchWithScore := (\<lambda>q k. VSThrows error)\<rparr>) query n
         = eventLookupTool (env\<lparr>similaritySearchWithScore := (\<lambda>q k. VSResult (Some []))\<rparr>) query n)
        = (message error = None))"
  by (simp add: eventLookupTool_def parse_no_results_object parse_no_results_plain tool_error_differs)

text \<open>
  C9 as stated fails: the answer to an error with a message is another text than the
  answer to an empty result.
\<close>

theorem lookup_tool_counterexample:
  \<open>eventLookupTool (demo_env\<lparr>similaritySearchWithScore := (\<lambda>q k. VSResult (Some []))\<rparr>)
      (js ''brunch'') None
     = js ''{"message":"NO_RESULTS_FOUND"}''
   \<and> eventLookupTool (demo_env\<lparr>similaritySearchWithScore := (\<lambda>q k. VSThrows (Exn (Some (js ''boom''))))\<rparr>)
      (js ''brunch'') None
     = js ''{"message":"NO_RESULTS_FOUND","error":"boom"}''
   \<and> eventLookupTool (demo_env\<lparr>similaritySearchWithScore := (\<lambda>q k. VSThrows (Exn (Some (js ''boom''))))\<rparr>)
      (js ''brunch'') None
     \<noteq> eventLookupTool (demo_env\<lparr>similaritySearchWithScore := (\<lambda>q k. VSResult (Some []))\<rparr>)
      (js ''brunch'') None\<close>
  by (simp add: eventLookupTool_def JSON_stringify_object_def defined_members_def
      List.map_filter_def stringify_member_def QuoteJSONString_def quote_unit_def
      is_surrogate_def is_high_surrogate_def is_low_surrogate_def NO_RESULTS_FOUND_def js_def)

section \<open>The directives of a web-only run\<close>

lemma queries_unparsed: "JSON_parse query = None \<Longrightarrow> searchQueries_of query = [query]"
  by (simp add: searchQueries_of_def)

lemma queries_null: "JSON_parse query = Some JNull \<Longrightarrow> searchQueries_of query = [query]"
  by (simp add: searchQueries_of_def get_searchSummary_def)

lemma queries_falsy:
  "JSON_parse query = Some parsedQuery \<Longrightarrow> get_searchSummary parsedQuery = Inr v \<Longrightarrow> \<not> truthy v
   \<Longrightarrow> searchQueries_of query = []"
  by (simp add: searchQueries_of_def)

lemma queries_not_a_string:
  "JSON_parse query = Some parsedQuery \<Longrightarrow> get_searchSummary parsedQuery = Inr v \<Longrightarrow> truthy v
   \<Longrightarrow> (\<forall>s. v \<noteq> Some (JStr s)) \<Longrightarrow> searchQueries_of query = [query]"
  by (auto simp: searchQueries_of_def split: option.splits json.splits)

lemma web_only_events:
  "web_agent_setup env = None \<Longrightarrow>
   fst (web_only_branch env query)
     = map WebSearch (searchQueries_of query)
         @ [Synthesis (synthesis_prompt env query (js ''No database results found.''))]"
  by (simp add: web_only_branch_def web_stage_def webSearchAgent_def)

lemma web_only_no_query:
  assumes "searchQueries_of query = []" and "web_agent_setup env = None"
  shows "web_searches (fst (web_only_branch env query)) = []"
    and "syntheses (fst (web_only_branch env query))
           = [\<lparr>original_query = query, database_results = js ''No database results found.'',
               web_search_results = []\<rparr>]"
  unfolding web_only_events[OF assms(2)] assms(1)
  by (simp_all add: web_searches_def syntheses_def synthesis_prompt_def assms(1))

text \<open>
  C10 (as amended). In web-only mode the raw query is the only search directive when it
  is not JSON, and also when it is the JSON text \<^verbatim>\<open>null\<close> (reading a property of
  \<^verbatim>\<open>null\<close> throws inside the same \<^verbatim>\<open>try\<close>) or has a truthy \<^verbatim>\<open>searchSummary\<close> that is
  not a string (it has no \<^verbatim>\<open>split\<close> to call). When the query is JSON, the property can be read
  and its value is not truthy (as for \<^verbatim>\<open>42\<close>), the list of directives stays empty: no web
  search is issued, and the synthesis runs on an empty batch of results.
\<close>

theorem web_only_directives:
  "(JSON_parse query = None \<or> JSON_parse query = Some JNull \<longrightarrow> searchQueries_of query = [query])
   \<and> (JSON_parse query = Some parsedQuery \<and> get_searchSummary parsedQuery = Inr v \<and> truthy v
        \<and> (\<forall>s. v \<noteq> Some (JStr s)) \<longrightarrow> searchQueries_of query = [query])
   \<and> (JSON_parse query = Some parsedQuery \<and> get_searchSummary parsedQuery = Inr v \<and> \<not> truthy v \<longrightarrow>
        searchQueries_of query = []
        \<and> (web_agent_setup env = None \<longrightarrow>
             web_searches (fst (web_only_branch env query)) = []
             \<and> syntheses (fst (web_only_branch env query))
                 = [\<lparr>original_query = query, database_results = js ''No database results found.'',
                     web_search_results = []\<rparr>]))"
proof -
  have a: "JSON_parse query = None \<or> JSON_parse query = Some JNull \<longrightarrow> searchQueries_of query = [query]"
    using queries_unparsed queries_null by blast
  have b: "JSON_parse query = Some parsedQuery \<and> get_searchSummary parsedQuery = Inr v \<and> \<not> truthy v \<longrightarrow>
        searchQueries_of query = []
        \<and> (web_agent_setup env = None \<longrightarrow>
             web_searches (fst (web_only_branch env query)) = []
             \<and> syntheses (fst (web_only_branch env query))
                 = [\<lparr>original_query = query, database_results = js ''No database results found.'',
                     web_search_results = []\<rparr>])"
    using queries_falsy[of query parsedQuery v] web_only_no_query[of query env] by blast
  have c: "JSON_parse query = Some parsedQuery \<and> get_searchSummary parsedQuery = Inr v \<and> truthy v
        \<and> (\<forall>s. v \<noteq> Some (JStr s)) \<longrightarrow> searchQueries_of query = [query]"
    using queries_not_a_string[of query parsedQuery v] by blast
  from a b c show ?thesis by blast
qed

lemma parse_null: "JSON_parse (js ''null'') = Some JNull"
  by (simp add: JSON_parse_def js_def is_json_ws_def is_digit_def)

lemma parse_42: "JSON_parse (js ''42'') = Some (JNum (Number False 42 0))"
  by (simp add: JSON_parse_def js_def is_json_ws_def is_digit_def scan_number_def scan_sign_def
      scan_int_def scan_frac_def scan_exp_def digits_value_def digit_value_def)

lemma summary_of_42: "get_searchSummary (JNum (Number False 42 0)) = Inr None \<and> \<not> truthy None"
  by (simp add: get_searchSummary_def truthy_def)

lemma parse_summary_1:
  \<open>JSON_parse (js ''{"searchSummary":1}'')
     = Some (JObj [(js ''searchSummary'', JNum (Number False 1 0))])\<close>
  by (simp add: JSON_parse_def js_def is_json_ws_def is_digit_def scan_number_def scan_sign_def
      scan_int_def scan_frac_def scan_exp_def digits_value_def digit_value_def)

lemma summary_of_1:
  "get_searchSummary (JObj [(js ''searchSummary'', JNum (Number False 1 0))])
     = Inr (Some (JNum (Number False 1 0)))
   \<and> truthy (Some (JNum (Number False 1 0)))
   \<and> (\<forall>s. Some (JNum (Number False 1 0)) \<noteq> Some (JStr s))"
  by (simp add: get_searchSummary_def truthy_def number_nonzero_def)

theorem web_only_directives_witness:
  \<open>JSON_parse (js ''null'') = Some JNull
   \<and> searchQueries_of (js ''null'') = [js ''null'']
   \<and> JSON_parse (js ''{"searchSummary":1}'')
       = Some (JObj [(js ''searchSummary'', JNum (Number False 1 0))])
   \<and> truthy (Some (JNum (Number False 1 0)))
   \<and> searchQueries_of (js ''{"searchSummary":1}'') = [js ''{"searchSummary":1}'']
   \<and> JSON_parse (js ''42'') = Some (JNum (Number False 42 0))
   \<and> get_searchSummary (JNum (Number False 42 0)) = Inr None
   \<and> \<not> truthy None
   \<and> web_agent_setup demo_env = None
   \<and> searchQueries_of (js ''42'') = []
   \<and> web_searches (fst (web_only_branch demo_env (js ''42''))) = []
   \<and> syntheses (fst (web_only_branch demo_env (js ''42'')))
       = [\<lparr>original_query = js ''42'', database_results = js ''No database results found.'',
           web_search_results = []\<rparr>]\<close>
  using web_only_directives[of \<open>js ''null''\<close> \<open>JNum (Number False 42 0)\<close> None demo_env]
    web_only_directives[of \<open>js ''{"searchSummary":1}''\<close>
      \<open>JObj [(js ''searchSummary'', JNum (Number False 1 0))]\<close>
      \<open>Some (JNum (Number False 1 0))\<close> demo_env]
    web_only_directives[of \<open>js ''42''\<close> \<open>JNum (Number False 42 0)\<close> None demo_env]
    parse_null parse_42 summary_of_42 parse_summary_1 summary_of_1 demo_setup
  by simp

text \<open>
  C10 as stated fails on the query \<^verbatim>\<open>null\<close>: it is valid JSON without a truthy
  \<^verbatim>\<open>searchSummary\<close>, and yet it is searched for.
\<close>

theorem web_only_null_counterexample:
  "JSON_parse (js ''null'') = Some JNull
   \<and> searchQueries_of (js ''null'') = [js ''null'']
   \<and> web_searches (fst (callAgent_after demo_env (js ''null'') (Inr (Text NO_RESULTS_FOUND))))
       = [js ''null'']"
proof -
  have q: "searchQueries_of (js ''null'') = [js ''null'']"
    using parse_null by (rule queries_null)
  have "web_searches (fst (callAgent_after demo_env (js ''null'') (Inr (Text NO_RESULTS_FOUND))))
       = [js ''null'']"
    unfolding callAgent_after_web_only[OF marker_only_includes[THEN conjunct1]
        marker_only_includes[THEN conjunct2]] web_only_events[OF demo_setup] q
    by (simp add: web_searches_def)
  with q parse_null show ?thesis by simp
qed

section \<open>The step ceiling of the retrieval loop\<close>

lemma run_graph_counts:
  "2 * model_invocations (fst (run_graph env n AgentNode messages)) \<le> Suc n
   \<and> 2 * tool_cycles (fst (run_graph env n AgentNode messages)) \<le> n
   \<and> 2 * model_invocations (fst (run_graph env n ToolsNode messages)) \<le> n
   \<and> 2 * tool_cycles (fst (run_graph env n ToolsNode messages)) \<le> Suc n"
proof (induction n arbitrary: messages)
  case 0
  show ?case by (simp add: model_invocations_def tool_cycles_def)
next
  case (Suc k)
  have agent: "2 * model_invocations (fst (run_graph env (Suc k) AgentNode messages)) \<le> Suc (Suc k)
      \<and> 2 * tool_cycles (fst (run_graph env (Suc k) AgentNode messages)) \<le> Suc k"
  proof (cases "callModel env messages")
    case (Inl error)
    then show ?thesis by (simp add: model_invocations_def tool_cycles_def)
  next
    case (Inr reply)
    show ?thesis
    proof (cases "k = 0 \<or> \<not> shouldContinue (messages @ reply)")
      case True
      with Inr show ?thesis by (auto simp: model_invocations_def tool_cycles_def)
    next
      case False
      obtain ev r where rg: "run_graph env k ToolsNode (messages @ reply) = (ev, r)"
        by (cases "run_graph env k ToolsNode (messages @ reply)") auto
      from Suc.IH[of "messages @ reply"] rg
      have "2 * model_invocations ev \<le> k" "2 * tool_cycles ev \<le> Suc k" by simp_all
      with Inr False rg show ?thesis by (simp add: model_invocations_def tool_cycles_def)
    qed
  qed
  have tools: "2 * model_invocations (fst (run_graph env (Suc k) ToolsNode messages)) \<le> Suc k
      \<and> 2 * tool_cycles (fst (run_graph env (Suc k) ToolsNode messages)) \<le> Suc (Suc k)"
  proof (cases "k = 0")
    case True
    then show ?thesis by (simp add: model_invocations_def tool_cycles_def)
  next
    case False
    obtain ev r where rg: "run_graph env k AgentNode (messages @ toolNode env messages) = (ev, r)"
      by (cases "run_graph env k AgentNode (messages @ toolNode env messages)") auto
    from Suc.IH[of "messages @ toolNode env messages"] rg
    have "2 * model_invocations ev \<le> Suc k" "2 * tool_cycles ev \<le> k" by simp_all
    with False rg show ?thesis by (simp add: model_invocations_def tool_cycles_def)
  qed
  from agent tools show ?case by simp
qed

text \<open>The last allowed step never gives an answer.\<close>

lemma last_step_throws: "\<exists>error. snd (run_graph env (Suc 0) nd messages) = Inl error"
  by (cases nd; cases "callModel env messages") simp_all

lemma eventLookupAgent_events:
  "fst (eventLookupAgent env query thread_id) = fst (eventLookupAgent_try env query thread_id)"
  by (simp add: eventLookupAgent_def split: prod.splits sum.splits)

lemma eventLookupAgent_try_events:
  "fst (eventLookupAgent_try env query thread_id) =
     (case checkpoint_load env thread_id of
        Inl error \<Rightarrow> []
      | Inr saved \<Rightarrow> fst (run_graph env recursionLimit AgentNode (saved @ [HumanMessage query])))"
proof (cases "checkpoint_load env thread_id")
  case (Inl error)
  then show ?thesis by (simp add: eventLookupAgent_try_def)
next
  case (Inr saved)
  obtain ev r where rg: "run_graph env recursionLimit AgentNode (saved @ [HumanMessage query]) = (ev, r)"
    by (cases "run_graph env recursionLimit AgentNode (saved @ [HumanMessage query])") auto
  show ?thesis
    using Inr rg by (simp add: eventLookupAgent_try_def split: sum.splits list.splits)
qed

lemma eventLookupAgent_value:
  "snd (eventLookupAgent env query thread_id)
     = Inr (case snd (eventLookupAgent_try env query thread_id) of
              Inl error \<Rightarrow> Text NO_RESULTS_FOUND | Inr c \<Rightarrow> c)"
  by (simp add: eventLookupAgent_def split: prod.splits sum.splits)

lemma eventLookupAgent_bounds:
  "model_invocations (fst (eventLookupAgent env query thread_id)) \<le> 8
   \<and> tool_cycles (fst (eventLookupAgent env query thread_id)) \<le> 7"
proof (cases "checkpoint_load env thread_id")
  case (Inl error)
  then show ?thesis
    by (simp add: eventLookupAgent_events eventLookupAgent_try_events
        model_invocations_def tool_cycles_def)
next
  case (Inr saved)
  from run_graph_counts[of env recursionLimit "saved @ [HumanMessage query]"]
  show ?thesis
    unfolding eventLookupAgent_events eventLookupAgent_try_events Inr
    by (simp add: recursionLimit_def)
qed

text \<open>A model that asks for a tool on every reply uses up every step.\<close>

lemma run_graph_always_tools:
  assumes "\<forall>ms. \<exists>c tcs. chat_model env ms = Inr (c, tcs) \<and> tcs \<noteq> []"
  shows "snd (run_graph env n nd messages) = Inl GraphRecursionError
     \<and> model_invocations (fst (run_graph env n nd messages))
         = (case nd of AgentNode \<Rightarrow> Suc n div 2 | ToolsNode \<Rightarrow> n div 2)
     \<and> tool_cycles (fst (run_graph env n nd messages))
         = (case nd of AgentNode \<Rightarrow> n div 2 | ToolsNode \<Rightarrow> Suc n div 2)"
proof (induction n arbitrary: nd messages)
  case 0
  show ?case by (cases nd) (simp_all add: model_invocations_def tool_cycles_def)
next
  case (Suc k)
  show ?case
  proof (cases nd)
    case AgentNode
    from assms obtain c tcs where m: "chat_model env messages = Inr (c, tcs)" and t: "tcs \<noteq> []"
      by blast
    have cm: "callModel env messages = Inr [AIMessage c tcs]" using m by (simp add: callModel_def)
    have sc: "shouldContinue (messages @ [AIMessage c tcs])"
      using t by (simp add: shouldContinue_def last_tool_calls_def)
    show ?thesis
    proof (cases "k = 0")
      case True
      with AgentNode cm show ?thesis by (simp add: model_invocations_def tool_cycles_def)
    next
      case False
      obtain ev r where rg: "run_graph env k ToolsNode (messages @ [AIMessage c tcs]) = (ev, r)"
        by (cases "run_graph env k ToolsNode (messages @ [AIMessage c tcs])") auto
      from Suc.IH[of ToolsNode "messages @ [AIMessage c tcs]"] rg
      have "r = Inl GraphRecursionError" "model_invocations ev = k div 2"
        "tool_cycles ev = Suc k div 2" by simp_all
      with AgentNode cm sc False rg show ?thesis
        by (simp add: model_invocations_def tool_cycles_def)
    qed
  next
    case ToolsNode
    show ?thesis
    proof (cases "k = 0")
      case True
      with ToolsNode show ?thesis by (simp add: model_invocations_def tool_cycles_def)
    next
      case False
      obtain ev r where rg: "run_graph env k AgentNode (messages @ toolNode env messages) = (ev, r)"
        by (cases "run_graph env k AgentNode (messages @ toolNode env messages)") auto
      from Suc.IH[of AgentNode "messages @ toolNode env messages"] rg
      have "r = Inl GraphRecursionError" "model_invocations ev = Suc k div 2"
        "tool_cycles ev = k div 2" by simp_all
      with ToolsNode False rg show ?thesis
        by (simp add: model_invocations_def tool_cycles_def)
    qed
  qed
qed

lemma eventLookupAgent_always_tools:
  assumes "checkpoint_load env thread_id = Inr saved"
    and "\<forall>ms. \<exists>c tcs. chat_model env ms = Inr (c, tcs) \<and> tcs \<noteq> []"
  shows "snd (eventLookupAgent_try env query thread_id) = Inl GraphRecursionError"
    and "snd (eventLookupAgent env query thread_id) = Inr (Text NO_RESULTS_FOUND)"
    and "model_invocations (fst (eventLookupAgent env query thread_id)) = 8"
    and "tool_cycles (fst (eventLookupAgent env query thread_id)) = 7"
proof -
  obtain ev r where rg: "run_graph env recursionLimit AgentNode (saved @ [HumanMessage query]) = (ev, r)"
    by (cases "run_graph env recursionLimit AgentNode (saved @ [HumanMessage query])") auto
  from run_graph_always_tools[OF assms(2), of recursionLimit AgentNode "saved @ [HumanMessage query]"] rg
  have r: "r = Inl GraphRecursionError" and m: "model_invocations ev = 8" and t: "tool_cycles ev = 7"
    by (simp_all add: recursionLimit_def)
  show e: "snd (eventLookupAgent_try env query thread_id) = Inl GraphRecursionError"
    using assms(1) rg r by (simp add: eventLookupAgent_try_def)
  show "snd (eventLookupAgent env query thread_id) = Inr (Text NO_RESULTS_FOUND)"
    using e by (simp add: eventLookupAgent_value)
  show "model_invocations (fst (eventLookupAgent env query thread_id)) = 8"
    unfolding eventLookupAgent_events eventLookupAgent_try_events assms(1) using rg m by simp
  show "tool_cycles (fst (eventLookupAgent env query thread_id)) = 7"
    unfolding eventLookupAgent_events eventLookupAgent_try_events assms(1) using rg t by simp
qed

text \<open>A model that answers at once is invoked once, and its answer is the agent's.\<close>

lemma eventLookupAgent_first_answer:
  assumes "checkpoint_load env thread_id = Inr saved"
    and "chat_model env (saved @ [HumanMessage query]) = Inr (c, [])"
  shows "eventLookupAgent env query thread_id = ([ModelInvoked], Inr c)"
  using assms
  by (simp add: eventLookupAgent_def eventLookupAgent_try_def recursionLimit_def eval_nat_numeral
      callModel_def shouldContinue_def last_tool_calls_def message_content_def)

text \<open>
  C4. Whatever the model does, a run of the retrieval agent invokes the model at most 15
  times and completes at most 15 cycles (a cycle is a model invocation followed by the
  execution of the tool calls it asked for); with the limit counting the steps of both
  nodes these are in fact at most 8 invocations and 7 cycles. The agent function settles
  with a value, and when the step ceiling is exceeded that value is the no-results
  marker: so it is, after 8 invocations and 7 cycles, for a model that asks for a tool on
  every reply. A model that answers at once is invoked once and its answer returned.
\<close>

theorem retrieval_loop_bounded:
  "model_invocations (fst (eventLookupAgent env query thread_id)) \<le> 15
   \<and> tool_cycles (fst (eventLookupAgent env query thread_id)) \<le> 15
   \<and> model_invocations (fst (eventLookupAgent env query thread_id)) \<le> 8
   \<and> tool_cycles (fst (eventLookupAgent env query thread_id)) \<le> 7
   \<and> (\<exists>c. snd (eventLookupAgent env query thread_id) = Inr c)
   \<and> (snd (eventLookupAgent_try env query thread_id) = Inl GraphRecursionError \<longrightarrow>
        snd (eventLookupAgent env query thread_id) = Inr (Text NO_RESULTS_FOUND))
   \<and> (checkpoint_load env thread_id = Inr saved
        \<and> (\<forall>ms. \<exists>c tcs. chat_model env ms = Inr (c, tcs) \<and> tcs \<noteq> []) \<longrightarrow>
        snd (eventLookupAgent_try env query thread_id) = Inl GraphRecursionError
        \<and> snd (eventLookupAgent env query thread_id) = Inr (Text NO_RESULTS_FOUND)
        \<and> model_invocations (fst (eventLookupAgent env query thread_id)) = 8
        \<and> tool_cycles (fst (eventLookupAgent env query thread_id)) = 7)
   \<and> (checkpoint_load env thread_id = Inr saved
        \<and> chat_model env (saved @ [HumanMessage query]) = Inr (answer, []) \<longrightarrow>
        eventLookupAgent env query thread_id = ([ModelInvoked], Inr answer))"
proof -
  have b: "model_invocations (fst (eventLookupAgent env query thread_id)) \<le> 8"
    "tool_cycles (fst (eventLookupAgent env query thread_id)) \<le> 7"
    using eventLookupAgent_bounds[of env query thread_id] by simp_all
  then have b': "model_invocations (fst (eventLookupAgent env query thread_id)) \<le> 15"
    "tool_cycles (fst (eventLookupAgent env query thread_id)) \<le> 15" by simp_all
  have v: "\<exists>c. snd (eventLookupAgent env query thread_id) = Inr c"
    by (simp add: eventLookupAgent_value)
  have f: "snd (eventLookupAgent_try env query thread_id) = Inl GraphRecursionError \<longrightarrow>
        snd (eventLookupAgent env query thread_id) = Inr (Text NO_RESULTS_FOUND)"
    by (simp add: eventLookupAgent_value)
  have t: "checkpoint_load env thread_id = Inr saved
        \<and> (\<forall>ms. \<exists>c tcs. chat_model env ms = Inr (c, tcs) \<and> tcs \<noteq> []) \<longrightarrow>
        snd (eventLookupAgent_try env query thread_id) = Inl GraphRecursionError
        \<and> snd (eventLookupAgent env query thread_id) = Inr (Text NO_RESULTS_FOUND)
        \<and> model_invocations (fst (eventLookupAgent env query thread_id)) = 8
        \<and> tool_cycles (fst (eventLookupAgent env query thread_id)) = 7"
    using eventLookupAgent_always_tools[of env thread_id saved query] by blast
  have a: "checkpoint_load env thread_id = Inr saved
        \<and> chat_model env (saved @ [HumanMessage query]) = Inr (answer, []) \<longrightarrow>
        eventLookupAgent env query thread_id = ([ModelInvoked], Inr answer)"
    using eventLookupAgent_first_answer[of env thread_id saved query answer] by blast
  from b b' v f t a show ?thesis by blast
qed

lemma loop_model_always_tools:
  "checkpoint_load (demo_env\<lparr>chat_model := (\<lambda>ms. Inr (Text [], [lookup_call]))\<rparr>) (js ''t1'') = Inr []
   \<and> (\<forall>ms. \<exists>c tcs. chat_model (demo_env\<lparr>chat_model := (\<lambda>ms. Inr (Text [], [lookup_call]))\<rparr>) ms
          = Inr (c, tcs) \<and> tcs \<noteq> [])"
  by (simp add: demo_env_def)

lemma demo_model_answers:
  "checkpoint_load demo_env (js ''t1'') = Inr []
   \<and> chat_model demo_env ([] @ [HumanMessage (js ''brunch'')]) = Inr (Text (js ''hello''), [])"
  by (simp add: demo_env_def)

theorem retrieval_loop_bounded_witness:
  "checkpoint_load (demo_env\<lparr>chat_model := (\<lambda>ms. Inr (Text [], [lookup_call]))\<rparr>) (js ''t1'') = Inr []
   \<and> (\<forall>ms. \<exists>c tcs. chat_model (demo_env\<lparr>chat_model := (\<lambda>ms. Inr (Text [], [lookup_call]))\<rparr>) ms
          = Inr (c, tcs) \<and> tcs \<noteq> [])
   \<and> snd (eventLookupAgent_try (demo_env\<lparr>chat_model := (\<lambda>ms. Inr (Text [], [lookup_call]))\<rparr>)
        (js ''brunch'') (js ''t1'')) = Inl GraphRecursionError
   \<and> snd (eventLookupAgent (demo_env\<lparr>chat_model := (\<lambda>ms. Inr (Text [], [lookup_call]))\<rparr>)
        (js ''brunch'') (js ''t1'')) = Inr (Text NO_RESULTS_FOUND)
   \<and> model_invocations (fst (eventLookupAgent (demo_env\<lparr>chat_model := (\<lambda>ms. Inr (Text [], [lookup_call]))\<rparr>)
        (js ''brunch'') (js ''t1''))) = 8
   \<and> tool_cycles (fst (eventLookupAgent (demo_env\<lparr>chat_model := (\<lambda>ms. Inr (Text [], [lookup_call]))\<rparr>)
        (js ''brunch'') (js ''t1''))) = 7
   \<and> checkpoint_load demo_env (js ''t1'') = Inr []
   \<and> chat_model demo_env ([] @ [HumanMessage (js ''brunch'')]) = Inr (Text (js ''hello''), [])
   \<and> eventLookupAgent demo_env (js ''brunch'') (js ''t1'') = ([ModelInvoked], Inr (Text (js ''hello'')))"
  using retrieval_loop_bounded[of "demo_env\<lparr>chat_model := (\<lambda>ms. Inr (Text [], [lookup_call]))\<rparr>"
      "js ''brunch''" "js ''t1''" "[]"]
    retrieval_loop_bounded[of demo_env "js ''brunch''" "js ''t1''" "[]" "Text (js ''hello'')"]
    loop_model_always_tools demo_model_answers
  by simp

text \<open>
  At the ceiling: a model that asks for a tool six times and answers on its seventh
  invocation, the thirteenth step, has its answer returned; a model that asks for a tool
  seven times and answers on its eighth invocation, the fifteenth step, gets the no-results
  marker.
\<close>

lemma answer_before_last_step:
  "eventLookupAgent (demo_env\<lparr>chat_model := answer_after 13\<rparr>) (js ''brunch'') (js ''t1'')
     = ([ModelInvoked, ToolsExecuted, ModelInvoked, ToolsExecuted, ModelInvoked, ToolsExecuted,
         ModelInvoked, ToolsExecuted, ModelInvoked, ToolsExecuted, ModelInvoked, ToolsExecuted,
         ModelInvoked], Inr (Text (js ''done'')))"
  by (simp add: eventLookupAgent_def eventLookupAgent_try_def demo_env_def recursionLimit_def
      eval_nat_numeral callModel_def shouldContinue_def last_tool_calls_def toolNode_def
      message_content_def answer_after_def)

lemma answer_on_last_step:
  "eventLookupAgent (demo_env\<lparr>chat_model := answer_after 15\<rparr>) (js ''brunch'') (js ''t1'')
     = ([ModelInvoked, ToolsExecuted, ModelInvoked, ToolsExecuted, ModelInvoked, ToolsExecuted,
         ModelInvoked, ToolsExecuted, ModelInvoked, ToolsExecuted, ModelInvoked, ToolsExecuted,
         ModelInvoked, ToolsExecuted, ModelInvoked], Inr (Text NO_RESULTS_FOUND))"
  by (simp add: eventLookupAgent_def eventLookupAgent_try_def demo_env_def recursionLimit_def
      eval_nat_numeral callModel_def shouldContinue_def last_tool_calls_def toolNode_def
      message_content_def answer_after_def)

section \<open>The controller's boundary\<close>






















text \<open>
  The apology is also the answer to a rejection of the retrieval agent: the model fails,
  and the logging call of the agent's \<^verbatim>\<open>catch\<close> throws.
\<close>

lemma retrieval_rejection_apology:
  "callAgent_logged
     (\<lambda>m. if m = js ''Error in event lookup agent:''
           then Some (Exn (Some (js ''log failed''))) else None)
     (demo_env\<lparr>chat_model := (\<lambda>ms. Inl (Exn (Some (js ''overloaded''))))\<rparr>)
     (js ''brunch'') (js ''t1'') = Inr (Text apology)"
  by (simp add: callAgent_logged_def callAgent_logged_try_def eventLookupAgent_logged_def
      demo_env_def recursionLimit_def eval_nat_numeral callModel_logged_def js_def)

end
